theory Spec2Isabelle
  imports Main "HOL-Library.Monad_Syntax"
begin

section \<open>The virtualised list widget of \<open>internal/tui/exp/list/list.go\<close>\<close>

text \<open>
  The Go struct \<open>list[T]\<close> (with its embedded \<open>confOptions\<close>) is the record
  \<open>tlist\<close>; a method with a pointer receiver takes the record and returns the updated
  one. Go strings are byte strings, here \<open>string\<close> (a list of \<open>char\<close>, one per
  byte). A slice expression or an index out of range panics in Go; the model returns
  \<open>Inl Panic\<close> there. The functions around \<open>render\<close> return an \<open>option\<close>, and
  \<open>None\<close> is "no result": the call panics or does not return.

  Go's \<open>int\<close> is 64 bits wide where the program runs, and its sums and differences
  wrap around. The model is over \<open>int\<close> and writes the wrap out (\<open>wrap64\<close>) where a
  number that a caller sets freely (the offset, the viewport height, a line count, the
  gap) enters a sum that decides a result or a panic: in \<open>viewPosition\<close>, in
  \<open>incrementOffset\<close> and \<open>decrementOffset\<close>, and in the fragment count, the gaps
  and the size estimate of \<open>renderIterator\<close>. The other sums add line numbers and
  heights of the rendered buffer, a string in memory.
\<close>

subsection \<open>Data\<close>

datatype direction = DirectionForward | DirectionBackward

datatype error = Panic

definition ItemNotFound :: int where
  "ItemNotFound = -1"

definition NL :: char where
  "NL = CHR 0x0A"

text \<open>
  A follow-up action (\<open>tea.Cmd\<close>). The commands an item hands back are opaque to the
  list (\<open>ItemCmd\<close> with a label); \<open>RenderCmd finishIndex\<close> is the closure \<open>renderCmd\<close>
  that \<open>render\<close> builds for the continuation pass; \<open>BatchCmd\<close> and \<open>SequenceCmd\<close> are
  what \<open>tea.Batch\<close> and \<open>tea.Sequence\<close> build from two or more commands. A nil command
  is \<open>None\<close> of \<open>cmd option\<close>.
\<close>

datatype cmd =
    ItemCmd string
  | RenderCmd int
  | BatchCmd "cmd list"
  | SequenceCmd "cmd list"

text \<open>
  Modelled from the spec: the item capability contract (section 6: an item produces a
  rendered text view, accepts a resize with two dimensions and optionally exposes the
  focusable capability). The item widgets are not part of the list's source. An item
  carries its identifier, whether it implements \<open>layout.Focusable\<close>, its focus state,
  the size it was last given, its view as a function of size and focus state, and the
  commands its methods return.
\<close>

record item =
  item_id :: string
  item_focusable :: bool
  item_focused :: bool
  item_size :: "int \<times> int"
  item_render :: "int \<times> int \<Rightarrow> bool \<Rightarrow> string"
  item_init_cmd :: "cmd option"
  item_size_cmd :: "cmd option"
  item_focus_cmd :: "cmd option"
  item_blur_cmd :: "cmd option"

text \<open>The struct \<open>renderedItem\<close>; its fields carry the prefix \<open>ri_\<close>.\<close>

record renderedItem =
  ri_view :: string
  ri_height :: int
  ri_start :: int
  ri_end :: int

text \<open>
  The struct \<open>list[T]\<close> with the fields of \<open>confOptions\<close> first. The key map and the
  mutex are left out: key dispatch is outside the claims and the model is sequential.
\<close>

record tlist =
  width :: int
  height :: int
  gap :: int
  wrap :: bool
  direction :: direction
  selectedItem :: string
  focused :: bool
  resize :: bool
  enableMouse :: bool
  offset :: int
  indexMap :: "string \<rightharpoonup> int"
  items :: "item list"
  renderedItems :: "string \<rightharpoonup> renderedItem"
  rendered :: string
  renderedHeight :: int
  lineOffsets :: "int list"
  cachedView :: string
  cachedViewOffset :: int
  cachedViewDirty :: bool
  movingByItem :: bool
  prevSelectedItem :: string
  selectionStartCol :: int
  selectionStartLine :: int
  selectionEndCol :: int
  selectionEndLine :: int
  selectionActive :: bool

subsection \<open>Machine integers\<close>

text \<open>
  \<open>int64 x\<close>: the number is in the range of a 64-bit signed integer. \<open>wrap64 x\<close>: the
  64-bit signed integer that a sum or difference with the exact value \<open>x\<close> leaves.
\<close>

definition int64 :: "int \<Rightarrow> bool" where
  "int64 x \<longleftrightarrow> - (2 ^ 63) \<le> x \<and> x < 2 ^ 63"

definition wrap64 :: "int \<Rightarrow> int" where
  "wrap64 x = (x + 2 ^ 63) mod 2 ^ 64 - 2 ^ 63"

subsection \<open>Library functions the list calls\<close>

text \<open>\<open>lipgloss.Height\<close>: the number of newlines of the string plus one.\<close>

definition lipgloss_Height :: "string \<Rightarrow> int" where
  "lipgloss_Height s = int (count_list s NL) + 1"

text \<open>\<open>strings.IndexByte\<close>: the index of the first occurrence of the byte, or -1.\<close>

fun IndexByte :: "string \<Rightarrow> char \<Rightarrow> int" where
  "IndexByte [] c = -1"
| "IndexByte (x # xs) c =
     (if x = c then 0 else (let r = IndexByte xs c in if r = -1 then -1 else r + 1))"

text \<open>A Go slice expression \<open>s[lo:hi]\<close> on a string: it panics unless \<open>0 \<le> lo \<le> hi \<le> len(s)\<close>.\<close>

definition slice_str :: "string \<Rightarrow> int \<Rightarrow> int \<Rightarrow> error + string" where
  "slice_str s lo hi =
     (if 0 \<le> lo \<and> lo \<le> hi \<and> hi \<le> int (length s)
      then Inr (take (nat (hi - lo)) (drop (nat lo) s))
      else Inl Panic)"

subsection \<open>The layout engine\<close>

definition viewPosition :: "tlist \<Rightarrow> int \<times> int" where
  "viewPosition l =
     (let renderedLines = wrap64 (renderedHeight l - 1);
          (start, end) =
            (if direction l = DirectionForward
             then (max 0 (offset l),
                   min (wrap64 (wrap64 (offset l + height l) - 1)) renderedLines)
             else (max 0 (wrap64 (wrap64 (wrap64 (renderedLines - offset l) - height l) + 1)),
                   max 0 (wrap64 (renderedLines - offset l))));
          start = min start end
      in (start, end))"

text \<open>
  The loop of \<open>setRendered\<close>: from byte \<open>off\<close>, find the next newline, record the
  offset after it and go on; stop when there is none.
\<close>

lemma IndexByte_range:
  "IndexByte s c \<noteq> -1 \<Longrightarrow> 0 \<le> IndexByte s c \<and> IndexByte s c < int (length s)"
  by (induction s) (auto simp: Let_def split: if_splits)

function lineOffsets_loop :: "string \<Rightarrow> nat \<Rightarrow> int list \<Rightarrow> int list" where
  "lineOffsets_loop r off acc =
     (let idx = IndexByte (drop off r) NL
      in if idx = -1 then acc
         else lineOffsets_loop r (off + nat idx + 1) (acc @ [int (off + nat idx + 1)]))"
  by pat_completeness auto
termination
proof (relation "measure (\<lambda>(r, off, acc). length r - off)")
  show "wf (measure (\<lambda>(r, off, acc). length r - off))" by simp
next
  fix r :: string and off :: nat and acc :: "int list" and idx :: int
  assume a: "idx = IndexByte (drop off r) NL" "idx \<noteq> -1"
  from IndexByte_range [of "drop off r" NL] a
  have "0 \<le> idx" "idx < int (length r - off)" by auto
  then show "((r, off + nat idx + 1, acc @ [int (off + nat idx + 1)]), (r, off, acc))
        \<in> measure (\<lambda>(r, off, acc). length r - off)"
    by auto
qed

declare lineOffsets_loop.simps [simp del]

definition setRendered :: "tlist \<Rightarrow> string \<Rightarrow> tlist" where
  "setRendered l r =
     l\<lparr>rendered := r,
       renderedHeight := lipgloss_Height r,
       cachedViewDirty := True,
       lineOffsets := (if length r > 0 then lineOffsets_loop r 0 [0] else [])\<rparr>"

text \<open>
  \<open>getLines\<close>. The index expressions \<open>l.lineOffsets[start]\<close> and
  \<open>l.lineOffsets[end+1]\<close> and the final slice expression panic out of range.
\<close>

definition index_int :: "int list \<Rightarrow> int \<Rightarrow> error + int" where
  "index_int xs i = (if 0 \<le> i \<and> i < int (length xs) then Inr (xs ! nat i) else Inl Panic)"

definition getLines :: "tlist \<Rightarrow> int \<Rightarrow> int \<Rightarrow> error + string" where
  "getLines l start end0 =
     (let n = int (length (lineOffsets l)) in
      if n = 0 \<or> start \<ge> n then Inr []
      else
        let end1 = (if end0 \<ge> n then n - 1 else end0) in
        if start > end1 then Inr []
        else
          case index_int (lineOffsets l) start of
            Inl e \<Rightarrow> Inl e
          | Inr startOffset \<Rightarrow>
              (case (if end1 + 1 < n
                     then (case index_int (lineOffsets l) (end1 + 1) of
                             Inl e \<Rightarrow> Inl e
                           | Inr v \<Rightarrow> Inr (v - 1))
                     else Inr (int (length (rendered l)))) of
                 Inl e \<Rightarrow> Inl e
               | Inr endOffset \<Rightarrow>
                   if startOffset \<ge> int (length (rendered l)) then Inr []
                   else slice_str (rendered l) startOffset
                          (min endOffset (int (length (rendered l))))))"

subsection \<open>The containers of \<open>internal/csync\<close>\<close>

text \<open>
  Modelled from the spec: \<open>csync.Slice\<close> and \<open>csync.Map\<close> are the internally
  synchronised containers of section 5, whose source is outside the list's file. In the
  sequential model a \<open>csync.Slice\<close> is a list whose \<open>Get\<close>, \<open>Set\<close> and \<open>Delete\<close>
  check the index (an index out of range reads \<open>None\<close> and writes nothing), and a
  \<open>csync.Map\<close> is a partial map (\<open>Get\<close> is application, \<open>Set\<close> and \<open>Del\<close> are
  updates).
\<close>

definition slice_Len :: "'a list \<Rightarrow> int" where
  "slice_Len xs = int (length xs)"

definition slice_Get :: "'a list \<Rightarrow> int \<Rightarrow> 'a option" where
  "slice_Get xs i = (if 0 \<le> i \<and> i < int (length xs) then Some (xs ! nat i) else None)"

definition slice_Set :: "'a list \<Rightarrow> int \<Rightarrow> 'a \<Rightarrow> 'a list" where
  "slice_Set xs i v = (if 0 \<le> i \<and> i < int (length xs) then xs[nat i := v] else xs)"

definition slice_Delete :: "'a list \<Rightarrow> int \<Rightarrow> 'a list" where
  "slice_Delete xs i =
     (if 0 \<le> i \<and> i < int (length xs) then take (nat i) xs @ drop (nat i + 1) xs else xs)"

subsection \<open>Items and commands\<close>

definition item_View :: "item \<Rightarrow> string" where
  "item_View it = item_render it (item_size it) (item_focused it)"

definition item_Focus :: "item \<Rightarrow> item" where
  "item_Focus it = it\<lparr>item_focused := True\<rparr>"

definition item_Blur :: "item \<Rightarrow> item" where
  "item_Blur it = it\<lparr>item_focused := False\<rparr>"

definition item_SetSize :: "item \<Rightarrow> int \<Rightarrow> int \<Rightarrow> item" where
  "item_SetSize it w h = it\<lparr>item_size := (w, h)\<rparr>"

text \<open>
  \<open>tea.Batch\<close> and \<open>tea.Sequence\<close> of Bubble Tea v2 drop the nil commands; with none
  left they return nil, with one left they return it, otherwise the combined command.
\<close>

definition compactCmds :: "(cmd list \<Rightarrow> cmd) \<Rightarrow> cmd option list \<Rightarrow> cmd option" where
  "compactCmds mk cmds =
     (case List.map_filter (\<lambda>c. c) cmds of
        [] \<Rightarrow> None
      | [c] \<Rightarrow> Some c
      | c # d # cs \<Rightarrow> Some (mk (c # d # cs)))"

definition tea_Batch :: "cmd option list \<Rightarrow> cmd option" where
  "tea_Batch = compactCmds BatchCmd"

definition tea_Sequence :: "cmd option list \<Rightarrow> cmd option" where
  "tea_Sequence = compactCmds SequenceCmd"

subsection \<open>Finding focusable items\<close>

text \<open>The \<open>for\<close> loops of \<open>firstSelectableItemAbove\<close> and \<open>firstSelectableItemBelow\<close>.\<close>

function scanAbove :: "item list \<Rightarrow> int \<Rightarrow> int option" where
  "scanAbove xs i =
     (if i \<ge> 0 then
        (case slice_Get xs i of
           None \<Rightarrow> scanAbove xs (i - 1)
         | Some it \<Rightarrow> if item_focusable it then Some i else scanAbove xs (i - 1))
      else None)"
  by pat_completeness auto
termination
  by (relation "measure (\<lambda>(xs, i). nat (i + 1))") auto

function scanBelow :: "item list \<Rightarrow> int \<Rightarrow> int option" where
  "scanBelow xs i =
     (if i < slice_Len xs then
        (case slice_Get xs i of
           None \<Rightarrow> scanBelow xs (i + 1)
         | Some it \<Rightarrow> if item_focusable it then Some i else scanBelow xs (i + 1))
      else None)"
  by pat_completeness auto
termination
  by (relation "measure (\<lambda>(xs, i). nat (slice_Len xs - i))") auto

declare scanAbove.simps [simp del]
declare scanBelow.simps [simp del]

text \<open>
  Both functions call themselves when wrap navigation is on and the boundary is reached.
  On an empty item sequence with wrap navigation that call repeats for ever, so the
  functions are partial: \<open>None\<close> is "does not return".
\<close>

partial_function (option) firstSelectableItemAbove :: "tlist \<Rightarrow> int \<Rightarrow> int option" where
  "firstSelectableItemAbove l inx =
     (case scanAbove (items l) (inx - 1) of
        Some i \<Rightarrow> Some i
      | None \<Rightarrow>
          if inx = 0 \<and> wrap l then firstSelectableItemAbove l (slice_Len (items l))
          else Some ItemNotFound)"

partial_function (option) firstSelectableItemBelow :: "tlist \<Rightarrow> int \<Rightarrow> int option" where
  "firstSelectableItemBelow l inx =
     (case scanBelow (items l) (inx + 1) of
        Some i \<Rightarrow> Some i
      | None \<Rightarrow>
          if inx = slice_Len (items l) - 1 \<and> wrap l then firstSelectableItemBelow l (-1)
          else Some ItemNotFound)"

declare firstSelectableItemAbove.simps [code]
declare firstSelectableItemBelow.simps [code]

definition selectFirstItem :: "tlist \<Rightarrow> tlist option" where
  "selectFirstItem l =
     do {
       inx \<leftarrow> firstSelectableItemBelow l (-1);
       Some (if inx \<noteq> ItemNotFound
             then (case slice_Get (items l) inx of
                     Some it \<Rightarrow> l\<lparr>selectedItem := item_id it\<rparr>
                   | None \<Rightarrow> l)
             else l)
     }"

definition selectLastItem :: "tlist \<Rightarrow> tlist option" where
  "selectLastItem l =
     do {
       inx \<leftarrow> firstSelectableItemAbove l (slice_Len (items l));
       Some (if inx \<noteq> ItemNotFound
             then (case slice_Get (items l) inx of
                     Some it \<Rightarrow> l\<lparr>selectedItem := item_id it\<rparr>
                   | None \<Rightarrow> l)
             else l)
     }"

definition setDefaultSelected :: "tlist \<Rightarrow> tlist option" where
  "setDefaultSelected l =
     (if selectedItem l = []
      then (if direction l = DirectionForward then selectFirstItem l else selectLastItem l)
      else Some l)"

subsection \<open>Scrolling the selected item into view\<close>

definition scrollToSelection :: "tlist \<Rightarrow> tlist option" where
  "scrollToSelection l =
     (case renderedItems l (selectedItem l) of
        None \<Rightarrow> setDefaultSelected (l\<lparr>selectedItem := []\<rparr>)
      | Some rItem \<Rightarrow>
          Some (let (start, end) = viewPosition l in
            if ri_start rItem \<le> start \<and> ri_end rItem \<ge> end then l
            else if movingByItem l \<and> ri_start rItem \<ge> start \<and> ri_end rItem \<le> end then l
            else if \<not> movingByItem l \<and>
                    ((ri_start rItem \<ge> start \<and> ri_start rItem \<le> end) \<or>
                     (ri_end rItem \<ge> start \<and> ri_end rItem \<le> end)) then l
            else
              (let renderedLines = renderedHeight l - 1;
                   l' =
                     (if ri_height rItem \<ge> height l then
                        (if direction l = DirectionForward
                         then l\<lparr>offset := ri_start rItem\<rparr>
                         else l\<lparr>offset := max 0 (renderedHeight l - (ri_start rItem + height l))\<rparr>)
                      else if ri_start rItem < start then
                        (if direction l = DirectionForward
                         then l\<lparr>offset := ri_start rItem\<rparr>
                         else l\<lparr>offset := max 0 (renderedLines - ri_start rItem - height l + 1)\<rparr>)
                      else if ri_end rItem > end then
                        (if direction l = DirectionForward
                         then l\<lparr>offset := max 0 (ri_end rItem - height l + 1)\<rparr>
                         else l\<lparr>offset := max 0 (renderedLines - ri_end rItem)\<rparr>)
                      else l)
               in if movingByItem l then l'\<lparr>movingByItem := False\<rparr> else l')))"

subsection \<open>Focus transfer\<close>

text \<open>
  \<open>f.Focus()\<close> and \<open>f.Blur()\<close> act on the item object the slice holds, so the model
  writes the changed item back at its index.
\<close>

definition blurPrevious :: "tlist \<Rightarrow> cmd option list \<times> tlist" where
  "blurPrevious l =
     (if prevSelectedItem l \<noteq> [] \<and> prevSelectedItem l \<noteq> selectedItem l then
        (case indexMap l (prevSelectedItem l) of
           None \<Rightarrow> ([], l)
         | Some prevIdx \<Rightarrow>
             (case slice_Get (items l) prevIdx of
                None \<Rightarrow> ([], l)
              | Some prevItem \<Rightarrow>
                  if item_focusable prevItem \<and> item_focused prevItem
                  then ([item_blur_cmd prevItem],
                        l\<lparr>items := slice_Set (items l) prevIdx (item_Blur prevItem),
                          renderedItems := (renderedItems l)(item_id prevItem := None)\<rparr>)
                  else ([], l)))
      else ([], l))"

definition focusCurrent :: "tlist \<Rightarrow> cmd option list \<times> tlist" where
  "focusCurrent l =
     (case indexMap l (selectedItem l) of
        None \<Rightarrow> ([], l)
      | Some idx \<Rightarrow>
          (case slice_Get (items l) idx of
             None \<Rightarrow> ([], l)
           | Some it \<Rightarrow>
               if item_focusable it \<and> \<not> item_focused it
               then ([item_focus_cmd it],
                     l\<lparr>items := slice_Set (items l) idx (item_Focus it),
                       renderedItems := (renderedItems l)(item_id it := None)\<rparr>)
               else ([], l)))"

definition focusSelectedItem :: "tlist \<Rightarrow> cmd option \<times> tlist" where
  "focusSelectedItem l =
     (if selectedItem l = [] \<or> \<not> focused l then (None, l)
      else
        (let (cmds1, l1) = blurPrevious l;
             (cmds2, l2) = focusCurrent l1
         in (tea_Batch (cmds1 @ cmds2), l2\<lparr>prevSelectedItem := selectedItem l2\<rparr>)))"

definition blurSelectedItem :: "tlist \<Rightarrow> cmd option \<times> tlist" where
  "blurSelectedItem l =
     (if selectedItem l = [] \<or> focused l then (None, l)
      else
        (case indexMap l (selectedItem l) of
           None \<Rightarrow> (None, l)
         | Some idx \<Rightarrow>
             (case slice_Get (items l) idx of
                None \<Rightarrow> (None, l)
              | Some it \<Rightarrow>
                  if item_focusable it \<and> item_focused it
                  then (item_blur_cmd it,
                        l\<lparr>items := slice_Set (items l) idx (item_Blur it),
                          renderedItems := (renderedItems l)(item_id it := None)\<rparr>)
                  else (None, l))))"

subsection \<open>The incremental renderer\<close>

definition renderItem :: "item \<Rightarrow> renderedItem" where
  "renderItem it =
     \<lparr>ri_view = item_View it, ri_height = lipgloss_Height (item_View it),
      ri_start = 0, ri_end = 0\<rparr>"

text \<open>
  The first pass of \<open>renderIterator\<close>: the loop over \<open>i\<close> with the render cache
  \<open>l.renderedItems\<close> (the only field of the list the loop writes), the fragments so
  far and \<open>currentContentHeight\<close>. It returns the cache, the fragments (view and gap)
  and \<open>finalIndex\<close>.
\<close>

function renderIterator_loop ::
  "tlist \<Rightarrow> bool \<Rightarrow> int \<Rightarrow> (string \<rightharpoonup> renderedItem) \<Rightarrow> (string \<times> int) list \<Rightarrow> int
   \<Rightarrow> (string \<rightharpoonup> renderedItem) \<times> (string \<times> int) list \<times> int"
where
  "renderIterator_loop l limitHeight i cache fragments currentContentHeight =
     (let itemsLen = slice_Len (items l) in
      if i < itemsLen then
        if limitHeight \<and> currentContentHeight \<ge> height l then (cache, fragments, i)
        else
          (let inx = (if direction l \<noteq> DirectionForward then (itemsLen - 1) - i else i) in
           case slice_Get (items l) inx of
             None \<Rightarrow>
               renderIterator_loop l limitHeight (i + 1) cache fragments currentContentHeight
           | Some it \<Rightarrow>
               (let rItem =
                      (case cache (item_id it) of
                         Some c \<Rightarrow> c
                       | None \<Rightarrow>
                           (renderItem it)
                             \<lparr>ri_start := currentContentHeight,
                              ri_end := currentContentHeight + ri_height (renderItem it) - 1\<rparr>);
                    cache' =
                      (case cache (item_id it) of
                         Some c \<Rightarrow> cache
                       | None \<Rightarrow> cache(item_id it \<mapsto> rItem));
                    g = (if inx = itemsLen - 1 then 0 else wrap64 (gap l + 1))
                in renderIterator_loop l limitHeight (i + 1) cache'
                     (fragments @ [(ri_view rItem, g)]) (ri_end rItem + 1 + gap l)))
      else (cache, fragments, itemsLen))"
  by pat_completeness auto
termination
  by (relation "measure (\<lambda>(l, lh, i, ca, fr, c). nat (slice_Len (items l) - i))") auto

declare renderIterator_loop.simps [simp del]

definition writeFragment :: "string \<times> int \<Rightarrow> string" where
  "writeFragment f = fst f @ (if snd f > 0 then replicate (nat (snd f)) NL else [])"

text \<open>
  \<open>renderIterator\<close>. It panics twice where the model returns \<open>None\<close>:
  \<open>make([]renderFragment, 0, expectedFragments)\<close> panics on a negative capacity, and
  \<open>b.Grow(estimatedSize)\<close> panics on a negative count. \<open>estimatedSize\<close> is the sum
  of the second pass's first loop, taken as the code takes it, in 64 bits.
\<close>

definition expectedFragments :: "tlist \<Rightarrow> int \<Rightarrow> bool \<Rightarrow> int" where
  "expectedFragments l startInx limitHeight =
     (let e = wrap64 (slice_Len (items l) - startInx)
      in if limitHeight \<and> height l > 0 then min e (height l) else e)"

definition estimatedSize :: "string \<Rightarrow> (string \<times> int) list \<Rightarrow> int" where
  "estimatedSize r fragments =
     foldl (\<lambda>n f. wrap64 (n + wrap64 (int (length (fst f)) + snd f))) (int (length r)) fragments"

definition renderIterator ::
  "tlist \<Rightarrow> int \<Rightarrow> bool \<Rightarrow> string \<Rightarrow> (string \<times> int \<times> tlist) option" where
  "renderIterator l startInx limitHeight r =
     (if expectedFragments l startInx limitHeight < 0 then None
      else
        (let (cache, fragments, finalIndex) =
               renderIterator_loop l limitHeight startInx (renderedItems l) []
                 (lipgloss_Height r - 1);
             l' = l\<lparr>renderedItems := cache\<rparr>
         in if estimatedSize r fragments < 0 then None
            else if direction l = DirectionForward
            then Some (r @ concat (map writeFragment fragments), finalIndex, l')
            else Some (concat (map writeFragment (rev fragments)) @ r, finalIndex, l')))"

function recalculate_loop ::
  "tlist \<Rightarrow> int \<Rightarrow> (string \<rightharpoonup> renderedItem) \<Rightarrow> int \<Rightarrow> (string \<rightharpoonup> renderedItem)" where
  "recalculate_loop l i cache currentContentHeight =
     (if i < slice_Len (items l) then
        (case slice_Get (items l) i of
           None \<Rightarrow> recalculate_loop l (i + 1) cache currentContentHeight
         | Some it \<Rightarrow>
             (case cache (item_id it) of
                None \<Rightarrow> recalculate_loop l (i + 1) cache currentContentHeight
              | Some rItem \<Rightarrow>
                  (let r = rItem\<lparr>ri_start := currentContentHeight,
                                 ri_end := currentContentHeight + ri_height rItem - 1\<rparr>
                   in recalculate_loop l (i + 1) (cache(item_id it \<mapsto> r))
                        (ri_end r + 1 + gap l))))
      else cache)"
  by pat_completeness auto
termination
  by (relation "measure (\<lambda>(l, i, ca, c). nat (slice_Len (items l) - i))") auto

declare recalculate_loop.simps [simp del]

definition recalculateItemPositionsFrom :: "tlist \<Rightarrow> int \<Rightarrow> tlist" where
  "recalculateItemPositionsFrom l startIdx =
     (let c0 =
        (if startIdx > 0 then
           (case slice_Get (items l) (startIdx - 1) of
              None \<Rightarrow> 0
            | Some prevItem \<Rightarrow>
                (case renderedItems l (item_id prevItem) of
                   None \<Rightarrow> 0
                 | Some rItem \<Rightarrow> ri_end rItem + 1 + gap l))
         else 0)
      in l\<lparr>renderedItems := recalculate_loop l startIdx (renderedItems l) c0\<rparr>)"

definition recalculateItemPositions :: "tlist \<Rightarrow> tlist" where
  "recalculateItemPositions l = recalculateItemPositionsFrom l 0"

text \<open>
  \<open>render\<close>. With a non-empty buffer it renders every item at once; on the initial
  pass it renders with the height limit and returns the continuation \<open>RenderCmd
  finishIndex\<close>, whose body is \<open>renderCmd\<close> below.
\<close>

definition render_pass :: "tlist \<Rightarrow> int \<Rightarrow> bool \<Rightarrow> string \<Rightarrow> (int \<times> tlist) option" where
  "render_pass l startInx limitHeight r =
     (case renderIterator l startInx limitHeight r of
        None \<Rightarrow> None
      | Some (r', finishIndex, l1) \<Rightarrow>
          (let l2 = setRendered l1 r';
               l3 = (if direction l2 = DirectionBackward then recalculateItemPositions l2 else l2)
           in Some (finishIndex, l3)))"

definition render :: "tlist \<Rightarrow> (cmd option \<times> tlist) option" where
  "render l =
     (if width l \<le> 0 \<or> height l \<le> 0 \<or> slice_Len (items l) = 0 then Some (None, l)
      else
        do {
          l1 \<leftarrow> setDefaultSelected l;
          let (focusChangeCmd, l2) =
                (if focused l1 then focusSelectedItem l1 else blurSelectedItem l1);
          if rendered l2 \<noteq> [] then
            do {
              (finishIndex, l3) \<leftarrow> render_pass l2 0 False [];
              l4 \<leftarrow> (if focused l3 then scrollToSelection l3 else Some l3);
              Some (focusChangeCmd, l4)
            }
          else
            do {
              (finishIndex, l3) \<leftarrow> render_pass l2 0 True [];
              Some (tea_Batch [focusChangeCmd, Some (RenderCmd finishIndex)], l3)
            }
        })"

definition renderCmd :: "int \<Rightarrow> tlist \<Rightarrow> tlist option" where
  "renderCmd finishIndex l =
     (let l1 = l\<lparr>offset := 0\<rparr>
      in do {
           (fi, l2) \<leftarrow> render_pass l1 finishIndex False (rendered l1);
           if focused l2 then scrollToSelection l2 else Some l2
         })"

subsection \<open>Construction\<close>

text \<open>
  The loop \<open>for i := from; i < itemsLen; i++\<close> that stores each item's position in
  the index map (in \<open>New\<close>, \<open>DeleteItem\<close>, \<open>PrependItem\<close> and \<open>reset\<close>). The
  \<open>Indexable\<close> capability, declared outside this file, only stores the position inside
  the item and is left out.
\<close>

function reindex_loop :: "item list \<Rightarrow> int \<Rightarrow> (string \<rightharpoonup> int) \<Rightarrow> (string \<rightharpoonup> int)" where
  "reindex_loop xs i m =
     (if i < slice_Len xs then
        (case slice_Get xs i of
           None \<Rightarrow> reindex_loop xs (i + 1) m
         | Some it \<Rightarrow> reindex_loop xs (i + 1) (m(item_id it \<mapsto> i)))
      else m)"
  by pat_completeness auto
termination
  by (relation "measure (\<lambda>(xs, i, m). nat (slice_Len xs - i))") auto

declare reindex_loop.simps [simp del]

definition WithSize :: "int \<Rightarrow> int \<Rightarrow> tlist \<Rightarrow> tlist" where
  "WithSize w h l = l\<lparr>width := w, height := h\<rparr>"

definition WithGap :: "int \<Rightarrow> tlist \<Rightarrow> tlist" where
  "WithGap g l = l\<lparr>gap := g\<rparr>"

definition WithDirectionForward :: "tlist \<Rightarrow> tlist" where
  "WithDirectionForward l = l\<lparr>direction := DirectionForward\<rparr>"

definition WithDirectionBackward :: "tlist \<Rightarrow> tlist" where
  "WithDirectionBackward l = l\<lparr>direction := DirectionBackward\<rparr>"

definition WithSelectedItem :: "string \<Rightarrow> tlist \<Rightarrow> tlist" where
  "WithSelectedItem i l = l\<lparr>selectedItem := i\<rparr>"

definition WithWrapNavigation :: "tlist \<Rightarrow> tlist" where
  "WithWrapNavigation l = l\<lparr>wrap := True\<rparr>"

definition WithFocus :: "bool \<Rightarrow> tlist \<Rightarrow> tlist" where
  "WithFocus f l = l\<lparr>focused := f\<rparr>"

definition WithResizeByList :: "tlist \<Rightarrow> tlist" where
  "WithResizeByList l = l\<lparr>resize := True\<rparr>"

definition WithEnableMouse :: "tlist \<Rightarrow> tlist" where
  "WithEnableMouse l = l\<lparr>enableMouse := True\<rparr>"

definition New :: "item list \<Rightarrow> (tlist \<Rightarrow> tlist) list \<Rightarrow> tlist" where
  "New xs opts =
     (let l0 = \<lparr>width = 0, height = 0, gap = 0, wrap = False,
                 direction = DirectionForward, selectedItem = [], focused = True,
                 resize = False, enableMouse = False, offset = 0,
                 indexMap = Map.empty, items = xs, renderedItems = Map.empty,
                 rendered = [], renderedHeight = 0, lineOffsets = [],
                 cachedView = [], cachedViewOffset = 0, cachedViewDirty = False,
                 movingByItem = False, prevSelectedItem = [],
                 selectionStartCol = -1, selectionStartLine = -1,
                 selectionEndCol = -1, selectionEndLine = -1,
                 selectionActive = False\<rparr>;
          l1 = fold (\<lambda>opt l. opt l) opts l0
      in l1\<lparr>indexMap := reindex_loop xs 0 (indexMap l1)\<rparr>)"

definition Init :: "tlist \<Rightarrow> (cmd option \<times> tlist) option" where
  "Init l = render l"

subsection \<open>Jumping and scrolling\<close>

definition GoToBottom :: "tlist \<Rightarrow> (cmd option \<times> tlist) option" where
  "GoToBottom l = render (l\<lparr>offset := 0, selectedItem := [], direction := DirectionBackward\<rparr>)"

definition GoToTop :: "tlist \<Rightarrow> (cmd option \<times> tlist) option" where
  "GoToTop l = render (l\<lparr>offset := 0, selectedItem := [], direction := DirectionForward\<rparr>)"

definition incrementOffset :: "tlist \<Rightarrow> int \<Rightarrow> tlist" where
  "incrementOffset l n =
     (if renderedHeight l \<le> height l then l
      else
        (let maxOffset = wrap64 (renderedHeight l - height l);
             n' = min n (wrap64 (maxOffset - offset l))
         in if n' \<le> 0 then l
            else l\<lparr>offset := wrap64 (offset l + n'), cachedViewDirty := True\<rparr>))"

definition decrementOffset :: "tlist \<Rightarrow> int \<Rightarrow> tlist" where
  "decrementOffset l n =
     (let n' = min n (offset l)
      in if n' \<le> 0 then l
         else
           (let l1 = l\<lparr>offset := wrap64 (offset l - n')\<rparr>;
                l2 = (if offset l1 < 0 then l1\<lparr>offset := 0\<rparr> else l1)
            in l2\<lparr>cachedViewDirty := True\<rparr>))"

definition hasSelection :: "tlist \<Rightarrow> bool" where
  "hasSelection l \<longleftrightarrow>
     selectionEndCol l \<noteq> selectionStartCol l \<or> selectionEndLine l \<noteq> selectionStartLine l"

text \<open>
  The two \<open>for\<close> loops of \<open>changeSelectionWhenScrolling\<close>. Each asks for the next
  focusable item and goes on until one lies in the view or none is left; with wrap
  navigation the search can go round for ever, so the loops are partial.
\<close>

partial_function (option) selectBelowInView ::
  "tlist \<Rightarrow> int \<Rightarrow> int \<Rightarrow> int \<Rightarrow> (cmd option \<times> tlist) option" where
  "selectBelowInView l start end0 inx =
     Option.bind (firstSelectableItemBelow l inx) (\<lambda>inx'.
       if inx' = ItemNotFound then Some (None, l)
       else
         (case slice_Get (items l) inx' of
            None \<Rightarrow> selectBelowInView l start end0 inx'
          | Some it \<Rightarrow>
              (case renderedItems l (item_id it) of
                 None \<Rightarrow> selectBelowInView l start end0 inx'
               | Some r \<Rightarrow>
                   if ri_start r \<le> start \<and> ri_end r \<ge> end0
                   then render (l\<lparr>selectedItem := item_id it\<rparr>)
                   else if ri_start r \<ge> start \<and> ri_start r \<le> end0
                   then render (l\<lparr>selectedItem := item_id it\<rparr>)
                   else selectBelowInView l start end0 inx')))"

partial_function (option) selectAboveInView ::
  "tlist \<Rightarrow> int \<Rightarrow> int \<Rightarrow> int \<Rightarrow> (cmd option \<times> tlist) option" where
  "selectAboveInView l start end0 inx =
     Option.bind (firstSelectableItemAbove l inx) (\<lambda>inx'.
       if inx' = ItemNotFound then Some (None, l)
       else
         (case slice_Get (items l) inx' of
            None \<Rightarrow> selectAboveInView l start end0 inx'
          | Some it \<Rightarrow>
              (case renderedItems l (item_id it) of
                 None \<Rightarrow> selectAboveInView l start end0 inx'
               | Some r \<Rightarrow>
                   if ri_start r \<le> start \<and> ri_end r \<ge> end0
                   then render (l\<lparr>selectedItem := item_id it\<rparr>)
                   else if ri_end r \<ge> start \<and> ri_end r \<le> end0
                   then render (l\<lparr>selectedItem := item_id it\<rparr>)
                   else selectAboveInView l start end0 inx')))"

declare selectBelowInView.simps [code]
declare selectAboveInView.simps [code]

text \<open>Go's integer division truncates towards zero.\<close>

definition go_div :: "int \<Rightarrow> int \<Rightarrow> int" where
  "go_div a b = (if (a < 0) = (b < 0) then \<bar>a\<bar> div \<bar>b\<bar> else - (\<bar>a\<bar> div \<bar>b\<bar>))"

definition changeSelectionWhenScrolling :: "tlist \<Rightarrow> (cmd option \<times> tlist) option" where
  "changeSelectionWhenScrolling l =
     (case renderedItems l (selectedItem l) of
        None \<Rightarrow> Some (None, l)
      | Some rItem \<Rightarrow>
          (let (start, end0) = viewPosition l in
           if ri_start rItem \<le> start \<and> ri_end rItem \<ge> end0 then Some (None, l)
           else if ri_start rItem \<ge> start \<and> ri_end rItem \<le> end0 then Some (None, l)
           else
             (let itemMiddle = ri_start rItem + go_div (ri_height rItem) 2 in
              if itemMiddle < start then
                (case indexMap l (selectedItem l) of
                   None \<Rightarrow> Some (None, l)
                 | Some inx \<Rightarrow> selectBelowInView l start end0 inx)
              else if itemMiddle > end0 then
                (case indexMap l (selectedItem l) of
                   None \<Rightarrow> Some (None, l)
                 | Some inx \<Rightarrow> selectAboveInView l start end0 inx)
              else Some (None, l))))"

text \<open>
  \<open>MoveDown\<close> and \<open>MoveUp\<close>. Both branches of the inner \<open>if\<close> that moves a finished
  selection do the same in the source.
\<close>

definition MoveDown :: "tlist \<Rightarrow> int \<Rightarrow> (cmd option \<times> tlist) option" where
  "MoveDown l n =
     (let oldOffset = offset l;
          l1 = (if direction l = DirectionForward then incrementOffset l n
                else decrementOffset l n)
      in if oldOffset = offset l1 then Some (None, l1)
         else
           (let l2 = (if hasSelection l1 \<and> \<not> selectionActive l1
                      then l1\<lparr>selectionStartLine := selectionStartLine l1 - n,
                              selectionEndLine := selectionEndLine l1 - n\<rparr>
                      else l1);
                l3 = (if selectionActive l2
                      then (if selectionStartLine l2 < selectionEndLine l2
                            then l2\<lparr>selectionStartLine := selectionStartLine l2 - n\<rparr>
                            else l2\<lparr>selectionEndLine := selectionEndLine l2 - n\<rparr>)
                      else l2)
            in changeSelectionWhenScrolling l3))"

definition MoveUp :: "tlist \<Rightarrow> int \<Rightarrow> (cmd option \<times> tlist) option" where
  "MoveUp l n =
     (let oldOffset = offset l;
          l1 = (if direction l = DirectionForward then decrementOffset l n
                else incrementOffset l n)
      in if oldOffset = offset l1 then Some (None, l1)
         else
           (let l2 = (if hasSelection l1 \<and> \<not> selectionActive l1
                      then l1\<lparr>selectionStartLine := selectionStartLine l1 + n,
                              selectionEndLine := selectionEndLine l1 + n\<rparr>
                      else l1);
                l3 = (if selectionActive l2
                      then (if selectionStartLine l2 > selectionEndLine l2
                            then l2\<lparr>selectionStartLine := selectionStartLine l2 + n\<rparr>
                            else l2\<lparr>selectionEndLine := selectionEndLine l2 + n\<rparr>)
                      else l2)
            in changeSelectionWhenScrolling l3))"

subsection \<open>Changing the item sequence\<close>

definition append_cmd :: "cmd option list \<Rightarrow> cmd option \<Rightarrow> cmd option list" where
  "append_cmd cmds c = (case c of None \<Rightarrow> cmds | Some x \<Rightarrow> cmds @ [Some x])"

definition AppendItem :: "tlist \<Rightarrow> item \<Rightarrow> (cmd option \<times> tlist) option" where
  "AppendItem l it =
     (let cmds0 = append_cmd [] (item_init_cmd it);
          newIndex = slice_Len (items l);
          l1 = l\<lparr>items := items l @ [it],
                 indexMap := (indexMap l)(item_id it \<mapsto> newIndex)\<rparr>;
          (cmds1, l2) =
            (if width l1 > 0 \<and> height l1 > 0
             then (append_cmd cmds0 (item_size_cmd it),
                   l1\<lparr>items := slice_Set (items l1) newIndex
                                   (item_SetSize it (width l1) (height l1))\<rparr>)
             else (cmds0, l1))
      in do {
           (c, l3) \<leftarrow> render l2;
           let cmds2 = append_cmd cmds1 c;
           if direction l3 = DirectionBackward then
             (if offset l3 = 0 then
                do {
                  (c', l4) \<leftarrow> GoToBottom l3;
                  Some (tea_Sequence (append_cmd cmds2 c'), l4)
                }
              else
                (case renderedItems l3 (item_id it) of
                   None \<Rightarrow> Some (tea_Sequence cmds2, l3)
                 | Some newItem \<Rightarrow>
                     (let newLines = ri_height newItem +
                            (if slice_Len (items l3) > 1 then gap l3 else 0)
                      in Some (tea_Sequence cmds2,
                               l3\<lparr>offset := min (renderedHeight l3 - 1) (offset l3 + newLines)\<rparr>))))
           else Some (tea_Sequence cmds2, l3)
         })"

definition DeleteItem :: "tlist \<Rightarrow> string \<Rightarrow> (cmd option \<times> tlist) option" where
  "DeleteItem l i =
     (case indexMap l i of
        None \<Rightarrow> Some (None, l)
      | Some inx \<Rightarrow>
          (let l1 = l\<lparr>items := slice_Delete (items l) inx,
                     renderedItems := (renderedItems l)(i := None),
                     indexMap := (indexMap l)(i := None)\<rparr>;
               l2 = l1\<lparr>indexMap := reindex_loop (items l1) inx (indexMap l1)\<rparr>;
               l3 = (if selectedItem l2 = i then
                       (if inx > 0 then
                          (case slice_Get (items l2) (inx - 1) of
                             Some it \<Rightarrow> l2\<lparr>selectedItem := item_id it\<rparr>
                           | None \<Rightarrow> l2\<lparr>selectedItem := []\<rparr>)
                        else l2\<lparr>selectedItem := []\<rparr>)
                     else l2)
           in do {
                (c, l4) \<leftarrow> render l3;
                let l5 =
                  (if rendered l4 \<noteq> [] then
                     (if renderedHeight l4 \<le> height l4 then l4\<lparr>offset := 0\<rparr>
                      else
                        (let maxOffset = renderedHeight l4 - height l4
                         in if offset l4 > maxOffset then l4\<lparr>offset := maxOffset\<rparr> else l4))
                   else l4);
                Some (c, l5)
              }))"

definition PrependItem :: "tlist \<Rightarrow> item \<Rightarrow> (cmd option \<times> tlist) option" where
  "PrependItem l it =
     (let cmds0 = [item_init_cmd it];
          l1 = l\<lparr>items := it # items l\<rparr>;
          l2 = l1\<lparr>indexMap := reindex_loop (items l1) 0 Map.empty\<rparr>;
          (cmds1, l3) =
            (if width l2 > 0 \<and> height l2 > 0
             then (cmds0 @ [item_size_cmd it],
                   l2\<lparr>items := slice_Set (items l2) 0
                                   (item_SetSize it (width l2) (height l2))\<rparr>)
             else (cmds0, l2))
      in do {
           (c, l4) \<leftarrow> render l3;
           let cmds2 = cmds1 @ [c];
           if direction l4 = DirectionForward then
             (if offset l4 = 0 then
                do {
                  (c', l5) \<leftarrow> GoToTop l4;
                  Some (tea_Batch (append_cmd cmds2 c'), l5)
                }
              else
                (case renderedItems l4 (item_id it) of
                   None \<Rightarrow> Some (tea_Batch cmds2, l4)
                 | Some newItem \<Rightarrow>
                     (let newLines = ri_height newItem +
                            (if slice_Len (items l4) > 1 then gap l4 else 0)
                      in Some (tea_Batch cmds2,
                               l4\<lparr>offset := min (renderedHeight l4 - 1) (offset l4 + newLines)\<rparr>))))
           else Some (tea_Batch cmds2, l4)
         })"

definition reset :: "tlist \<Rightarrow> string \<Rightarrow> (cmd option \<times> tlist) option" where
  "reset l sel =
     (let l1 = l\<lparr>rendered := [], renderedHeight := 0, offset := 0, selectedItem := sel,
                 indexMap := Map.empty, renderedItems := Map.empty\<rparr>;
          l2 = l1\<lparr>indexMap := reindex_loop (items l1) 0 Map.empty\<rparr>;
          (cmds, l3) =
            (if width l2 > 0 \<and> height l2 > 0
             then (map item_size_cmd (items l2),
                   l2\<lparr>items := map (\<lambda>it. item_SetSize it (width l2) (height l2)) (items l2)\<rparr>)
             else ([], l2))
      in do {
           (c, l4) \<leftarrow> render l3;
           Some (tea_Batch (cmds @ [c]), l4)
         })"

definition SetItems :: "tlist \<Rightarrow> item list \<Rightarrow> (cmd option \<times> tlist) option" where
  "SetItems l xs =
     (let l1 = l\<lparr>items := xs\<rparr>;
          cmds = map item_init_cmd xs
      in do {
           (c, l2) \<leftarrow> reset l1 [];
           Some (tea_Batch (cmds @ [c]), l2)
         })"

definition SetSelected :: "tlist \<Rightarrow> string \<Rightarrow> (cmd option \<times> tlist) option" where
  "SetSelected l i = render (l\<lparr>prevSelectedItem := selectedItem l, selectedItem := i\<rparr>)"

definition SetSize :: "tlist \<Rightarrow> int \<Rightarrow> int \<Rightarrow> (cmd option \<times> tlist) option" where
  "SetSize l w h =
     (let oldWidth = width l;
          l1 = l\<lparr>width := w, height := h\<rparr>
      in if oldWidth \<noteq> w then reset l1 (selectedItem l1) else Some (None, l1))"

text \<open>\<open>ordered.Clamp\<close>: the bounds are swapped when given in the wrong order.\<close>

definition ordered_Clamp :: "int \<Rightarrow> int \<Rightarrow> int \<Rightarrow> int" where
  "ordered_Clamp n low high =
     (if low > high then min low (max high n) else min high (max low n))"

definition UpdateItem :: "tlist \<Rightarrow> string \<Rightarrow> item \<Rightarrow> (cmd option \<times> tlist) option" where
  "UpdateItem l i it =
     (case indexMap l i of
        None \<Rightarrow> Some (tea_Sequence [], l)
      | Some inx \<Rightarrow>
          (let l1 = l\<lparr>items := slice_Set (items l) inx it\<rparr>;
               oldItem = renderedItems l1 i;
               oldPosition = (if direction l1 = DirectionBackward
                              then (renderedHeight l1 - 1) - offset l1 else offset l1);
               l2 = l1\<lparr>renderedItems := (renderedItems l1)(i := None)\<rparr>
           in do {
                (c, l3) \<leftarrow> render l2;
                let cmds = append_cmd [] c;
                let adjust = (\<lambda>old.
                      (case renderedItems l3 (item_id it) of
                         None \<Rightarrow> l3
                       | Some newItem \<Rightarrow>
                           (let newLines = ri_height newItem - ri_height old
                            in l3\<lparr>offset := ordered_Clamp (offset l3 + newLines) 0
                                               (renderedHeight l3 - 1)\<rparr>)));
                let l4 =
                  (case oldItem of
                     None \<Rightarrow> l3
                   | Some old \<Rightarrow>
                       if direction l3 = DirectionBackward then
                         (if oldPosition < ri_end old then adjust old else l3)
                       else if offset l3 > ri_start old then adjust old
                       else l3);
                Some (tea_Sequence cmds, l4)
              }))"

subsection \<open>Mouse selection state\<close>

definition StartSelection :: "tlist \<Rightarrow> int \<Rightarrow> int \<Rightarrow> tlist" where
  "StartSelection l col line =
     l\<lparr>selectionStartCol := col, selectionStartLine := line,
       selectionEndCol := col, selectionEndLine := line, selectionActive := True\<rparr>"

definition EndSelection :: "tlist \<Rightarrow> int \<Rightarrow> int \<Rightarrow> tlist" where
  "EndSelection l col line =
     (if \<not> selectionActive l then l
      else l\<lparr>selectionEndCol := col, selectionEndLine := line\<rparr>)"

definition SelectionStop :: "tlist \<Rightarrow> tlist" where
  "SelectionStop l = l\<lparr>selectionActive := False\<rparr>"

definition SelectionClear :: "tlist \<Rightarrow> tlist" where
  "SelectionClear l =
     l\<lparr>selectionStartCol := -1, selectionStartLine := -1,
       selectionEndCol := -1, selectionEndLine := -1, selectionActive := False\<rparr>"

subsection \<open>The selection engine\<close>

text \<open>
  The terminal-cell grid, the styled-string renderer, the theme, the ANSI stripper and
  the grapheme segmenter are external libraries (Ultraviolet, Lip Gloss, \<open>x/ansi\<close>,
  \<open>uniseg\<close>). The list only reads and restyles cells, so they are parameters of the
  model, collected in \<open>env\<close>: \<open>env_draw view w h\<close> is the screen buffer of \<open>w\<close> by
  \<open>h\<close> cells with the styled string drawn on it, \<open>env_render\<close> is \<open>scr.Render()\<close>,
  \<open>env_base_render h w\<close> is the theme's base style with that height and width,
  \<open>env_sel_bg\<close> and \<open>env_sel_fg\<close> are the colours of the theme's \<open>TextSelection\<close>
  style, \<open>env_ignore_icons\<close> is \<open>styles.SelectionIgnoreIcons\<close>, \<open>env_strip\<close> is
  \<open>ansi.Strip\<close>, and \<open>env_graphemes s\<close> lists the grapheme clusters of \<open>s\<close>, each
  with \<open>gr.Str()\<close> and \<open>gr.IsWordBoundary()\<close>.
\<close>

record cell =
  cell_content :: string
  cell_bg :: "string option"
  cell_fg :: "string option"

record screen =
  scr_w :: int
  scr_h :: int
  scr_cells :: "int \<times> int \<rightharpoonup> cell"

record env =
  env_draw :: "string \<Rightarrow> int \<Rightarrow> int \<Rightarrow> screen"
  env_render :: "screen \<Rightarrow> string"
  env_base_render :: "int \<Rightarrow> int \<Rightarrow> string \<Rightarrow> string"
  env_sel_bg :: "string option"
  env_sel_fg :: "string option"
  env_ignore_icons :: "string list"
  env_strip :: "string \<Rightarrow> string"
  env_graphemes :: "string \<Rightarrow> (string \<times> bool) list"

definition CellAt :: "screen \<Rightarrow> int \<Rightarrow> int \<Rightarrow> cell option" where
  "CellAt scr x y = scr_cells scr (x, y)"

definition SetCell :: "screen \<Rightarrow> int \<Rightarrow> int \<Rightarrow> cell \<Rightarrow> screen" where
  "SetCell scr x y c = scr\<lparr>scr_cells := (scr_cells scr)((x, y) \<mapsto> c)\<rparr>"

text \<open>\<open>Rectangle.Canon\<close>: each axis is swapped on its own when its maximum is below its minimum.\<close>

definition Canon :: "(int \<times> int) \<times> (int \<times> int) \<Rightarrow> (int \<times> int) \<times> (int \<times> int)" where
  "Canon r =
     (let (minX, minY) = fst r; (maxX, maxY) = snd r;
          (minX, maxX) = (if maxX < minX then (maxX, minX) else (minX, maxX));
          (minY, maxY) = (if maxY < minY then (maxY, minY) else (minY, maxY))
      in ((minX, minY), (maxX, maxY)))"

definition isNonWhitespace :: "char \<Rightarrow> bool" where
  "isNonWhitespace r \<longleftrightarrow>
     r \<noteq> CHR '' '' \<and> r \<noteq> CHR 0x09 \<and> r \<noteq> CHR 0x00 \<and> r \<noteq> CHR 0x0A \<and> r \<noteq> CHR 0x0D"

text \<open>
  \<open>strings.TrimSpace\<close> removes the leading and the trailing white space as
  \<open>unicode.IsSpace\<close> defines it, reading the string as UTF-8. \<open>space_encodings\<close>
  lists the UTF-8 encodings of those characters: tab, line feed, vertical tab, form feed,
  carriage return, space, U+0085, U+00A0, U+1680, U+2000 to U+200A, U+2028, U+2029,
  U+202F, U+205F and U+3000. A byte sequence that is not one of them (also one that is
  not valid UTF-8) stops the trimming.
\<close>

definition space_encodings :: "string list" where
  "space_encodings =
     [[CHR 0x09], [CHR 0x0A], [CHR 0x0B], [CHR 0x0C], [CHR 0x0D], [CHR 0x20],
      [CHR 0xC2, CHR 0x85], [CHR 0xC2, CHR 0xA0], [CHR 0xE1, CHR 0x9A, CHR 0x80],
      [CHR 0xE2, CHR 0x80, CHR 0x80], [CHR 0xE2, CHR 0x80, CHR 0x81],
      [CHR 0xE2, CHR 0x80, CHR 0x82], [CHR 0xE2, CHR 0x80, CHR 0x83],
      [CHR 0xE2, CHR 0x80, CHR 0x84], [CHR 0xE2, CHR 0x80, CHR 0x85],
      [CHR 0xE2, CHR 0x80, CHR 0x86], [CHR 0xE2, CHR 0x80, CHR 0x87],
      [CHR 0xE2, CHR 0x80, CHR 0x88], [CHR 0xE2, CHR 0x80, CHR 0x89],
      [CHR 0xE2, CHR 0x80, CHR 0x8A], [CHR 0xE2, CHR 0x80, CHR 0xA8],
      [CHR 0xE2, CHR 0x80, CHR 0xA9], [CHR 0xE2, CHR 0x80, CHR 0xAF],
      [CHR 0xE2, CHR 0x81, CHR 0x9F], [CHR 0xE3, CHR 0x80, CHR 0x80]]"

function trimLeft :: "string list \<Rightarrow> string \<Rightarrow> string" where
  "trimLeft es s =
     (case find (\<lambda>e. e \<noteq> [] \<and> take (length e) s = e) es of
        None \<Rightarrow> s
      | Some e \<Rightarrow> trimLeft es (drop (length e) s))"
  by pat_completeness auto
termination
proof (relation "measure (\<lambda>(es, s). length s)")
  show "wf (measure (\<lambda>(es, s). length s))" by simp
next
  fix es :: "string list" and s e :: string
  assume "find (\<lambda>e. e \<noteq> [] \<and> take (length e) s = e) es = Some e"
  then have "e \<noteq> []" "take (length e) s = e" by (auto simp: find_Some_iff)
  then have "s \<noteq> []" "0 < length e" by auto
  then show "((es, drop (length e) s), (es, s)) \<in> measure (\<lambda>(es, s). length s)" by simp
qed

declare trimLeft.simps [simp del]

definition strings_TrimSpace :: "string \<Rightarrow> string" where
  "strings_TrimSpace s =
     rev (trimLeft (map rev space_encodings) (rev (trimLeft space_encodings s)))"

text \<open>The selection bounds of screen line \<open>y\<close>: \<open>(startX, endX, inSelection)\<close>.\<close>

definition lineSelection :: "(int \<times> int) \<times> (int \<times> int) \<Rightarrow> int \<Rightarrow> int \<Rightarrow> int \<times> int \<times> bool" where
  "lineSelection selArea w y =
     (let (minX, minY) = fst selArea; (maxX, maxY) = snd selArea in
      if y \<ge> minY \<and> y \<le> maxY then
        (if minY = maxY then (minX, maxX, True)
         else if y = minY then (minX, w, True)
         else if y = maxY then (0, maxX, True)
         else (0, w, True))
      else (-1, -1, False))"

text \<open>The first pass: the bounds \<open>(start, end)\<close> of the real text of screen line \<open>y\<close>.\<close>

definition textBounds_step :: "screen \<Rightarrow> string list \<Rightarrow> int \<Rightarrow> int \<times> int \<Rightarrow> int \<Rightarrow> int \<times> int" where
  "textBounds_step scr specialChars y bounds x =
     (case CellAt scr x y of
        None \<Rightarrow> bounds
      | Some c \<Rightarrow>
          (let cellStr = cell_content c in
           if length cellStr = 0 then bounds
           else
             (let ch = hd cellStr;
                  isSpecial = (cellStr \<in> set specialChars)
              in if (isNonWhitespace ch \<and> \<not> isSpecial) \<or> cell_bg c \<noteq> None
                 then ((if fst bounds = -1 then x else fst bounds), x + 1)
                 else bounds)))"

definition lineTextBounds :: "screen \<Rightarrow> string list \<Rightarrow> bool \<Rightarrow> int \<Rightarrow> int \<times> int" where
  "lineTextBounds scr specialChars inSelection y =
     (if inSelection
      then foldl (textBounds_step scr specialChars y) (-1, -1) [0..scr_w scr - 1]
      else (-1, -1))"

text \<open>
  The second pass, on one cell and on one line: the state is the screen (restyled cell
  by cell) and the text collected so far.
\<close>

definition select_cell :: "env \<Rightarrow> bool \<Rightarrow> string list \<Rightarrow> int \<Rightarrow> screen \<times> string \<Rightarrow> int \<Rightarrow> screen \<times> string" where
  "select_cell e textOnly specialChars y st x =
     (let (scr, selectedText) = st in
      case CellAt scr x y of
        None \<Rightarrow> st
      | Some c \<Rightarrow>
          (let cellStr = cell_content c in
           if length cellStr > 0 then
             (if cellStr \<in> set specialChars then st
              else if textOnly then (scr, selectedText @ cellStr)
              else (SetCell scr x y (c\<lparr>cell_bg := env_sel_bg e, cell_fg := env_sel_fg e\<rparr>),
                    selectedText))
           else st))"

definition select_line ::
  "env \<Rightarrow> bool \<Rightarrow> string list \<Rightarrow> (int \<Rightarrow> int \<times> int \<times> bool) \<Rightarrow> (int \<Rightarrow> int \<times> int)
   \<Rightarrow> screen \<times> string \<Rightarrow> int \<Rightarrow> screen \<times> string" where
  "select_line e textOnly specialChars lineSelections lineTextBounds0 st y =
     (let (startX, endX, inSelection) = lineSelections y in
      if \<not> inSelection then st
      else
        (let (tstart, tend) = lineTextBounds0 y in
         if tstart < 0 then
           (if textOnly then (fst st, snd st @ [NL]) else st)
         else
           (let scanStart = max tstart startX;
                scanEnd = min tend endX;
                st' = foldl (select_cell e textOnly specialChars y) st [scanStart..scanEnd - 1]
            in if textOnly then (fst st', snd st' @ [NL]) else st')))"

definition selectionView :: "env \<Rightarrow> tlist \<Rightarrow> string \<Rightarrow> bool \<Rightarrow> string" where
  "selectionView e l v textOnly =
     (let scr = env_draw e v (width l) (height l);
          selArea = Canon ((selectionStartCol l, selectionStartLine l),
                           (selectionEndCol l, selectionEndLine l));
          specialChars = env_ignore_icons e;
          lineSelections = lineSelection selArea (scr_w scr);
          bounds = (\<lambda>y. lineTextBounds scr specialChars (snd (snd (lineSelections y))) y);
          (scr', selectedText) =
            foldl (select_line e textOnly specialChars lineSelections bounds) (scr, [])
              [0..scr_h scr - 1]
      in if textOnly then strings_TrimSpace selectedText else env_render e scr')"

text \<open>
  \<open>View\<close> returns the view and the list with its view cache updated; \<open>getLines\<close> can
  panic on a line index that the offsets do not cover.
\<close>

definition View :: "env \<Rightarrow> tlist \<Rightarrow> error + string \<times> tlist" where
  "View e l =
     (if height l \<le> 0 \<or> width l \<le> 0 then Inr ([], l)
      else if \<not> cachedViewDirty l \<and> cachedViewOffset l = offset l \<and> \<not> hasSelection l
              \<and> cachedView l \<noteq> [] then Inr (cachedView l, l)
      else
        (let (start, end0) = viewPosition l;
             viewStart = max 0 start;
             viewEnd = end0
         in if viewStart > viewEnd then Inr ([], l)
            else
              (case getLines l viewStart viewEnd of
                 Inl err \<Rightarrow> Inl err
               | Inr v \<Rightarrow>
                   if resize l then Inr (v, l)
                   else
                     (let v' = env_base_render e (height l) (width l) v in
                      if \<not> hasSelection l
                      then Inr (v', l\<lparr>cachedView := v', cachedViewOffset := offset l,
                                       cachedViewDirty := False\<rparr>)
                      else Inr (selectionView e l v' False, l)))))"

definition GetSelectedText :: "env \<Rightarrow> tlist \<Rightarrow> int \<Rightarrow> error + string \<times> tlist" where
  "GetSelectedText e l paddingLeft =
     (if \<not> hasSelection l then Inr ([], l)
      else
        (case View e l of
           Inl err \<Rightarrow> Inl err
         | Inr (v, l') \<Rightarrow> Inr (selectionView e l' v True, l')))"

subsection \<open>Word selection\<close>

text \<open>\<open>strings.Split(s, "\n")\<close>: the pieces between the newlines, at least one.\<close>

fun strings_Split :: "string \<Rightarrow> string list" where
  "strings_Split [] = [[]]"
| "strings_Split (c # cs) =
     (if c = NL then [] # strings_Split cs
      else (case strings_Split cs of [] \<Rightarrow> [[c]] | x # xs \<Rightarrow> (c # x) # xs))"






text \<open>
  Modelled from the spec: the helper \<open>execCmd\<close> of the package's tests, which the
  benchmarks call after every mutator and which is defined in another file, runs the
  follow-up actions (section 6: the host executes the returned commands and feeds their
  results back). An item's command is opaque and leaves the list as it is; a
  continuation runs \<open>renderCmd\<close>; a batch or a sequence runs its commands in order.
\<close>

fun execCmd :: "cmd \<Rightarrow> tlist \<Rightarrow> tlist option"
  and execCmds :: "cmd list \<Rightarrow> tlist \<Rightarrow> tlist option" where
  "execCmd (ItemCmd s) l = Some l"
| "execCmd (RenderCmd finishIndex) l = renderCmd finishIndex l"
| "execCmd (BatchCmd cs) l = execCmds cs l"
| "execCmd (SequenceCmd cs) l = execCmds cs l"
| "execCmds [] l = Some l"
| "execCmds (c # cs) l = Option.bind (execCmd c l) (execCmds cs)"

definition run :: "(cmd option \<times> tlist) option \<Rightarrow> tlist option" where
  "run r =
     (case r of
        None \<Rightarrow> None
      | Some (None, l) \<Rightarrow> Some l
      | Some (Some c, l) \<Rightarrow> execCmd c l)"

subsection \<open>Reference definitions for the claims\<close>

text \<open>
  The spec's words for \<open>getLines\<close>: the lines of the rendered buffer between two
  inclusive line indices, the end clamped to the last line, joined by newlines again.
\<close>

fun join_lines :: "string list \<Rightarrow> string" where
  "join_lines [] = []"
| "join_lines [x] = x"
| "join_lines (x # y # ys) = x @ NL # join_lines (y # ys)"

definition spec_lines_between :: "string \<Rightarrow> int \<Rightarrow> int \<Rightarrow> string" where
  "spec_lines_between r start end0 =
     (let lines = strings_Split r;
          end1 = min end0 (int (length lines) - 1)
      in join_lines (take (nat (end1 - start + 1)) (drop (nat start) lines)))"

text \<open>
  The byte offset at which each line starts, and the number of bytes of the first \<open>t\<close>
  lines with their newlines.
\<close>

fun line_starts :: "nat \<Rightarrow> string list \<Rightarrow> nat list" where
  "line_starts k [] = []"
| "line_starts k (x # xs) = k # line_starts (k + length x + 1) xs"

definition line_sum :: "string list \<Rightarrow> nat \<Rightarrow> nat" where
  "line_sum xs t = (\<Sum>x\<leftarrow>take t xs. length x + 1)"

text \<open>
  The default selection in words: the identifier of the first focusable item of the
  sequence (forward direction) or of the last one (backward direction), empty when no
  item is focusable. \<open>item_key\<close> is what the choice depends on, and \<open>keeps\<close> relates
  two lists that agree on what the selection logic of \<open>render\<close> reads.
\<close>

fun first_focusable_id :: "item list \<Rightarrow> string" where
  "first_focusable_id [] = []"
| "first_focusable_id (x # xs) = (if item_focusable x then item_id x else first_focusable_id xs)"

definition default_selected_id :: "direction \<Rightarrow> item list \<Rightarrow> string" where
  "default_selected_id d xs =
     (if d = DirectionForward then first_focusable_id xs else first_focusable_id (rev xs))"

definition item_key :: "item \<Rightarrow> string \<times> bool" where
  "item_key it = (item_id it, item_focusable it)"

definition keeps :: "tlist \<Rightarrow> tlist \<Rightarrow> bool" where
  "keeps l l' \<longleftrightarrow>
     direction l' = direction l \<and> selectedItem l' = selectedItem l \<and>
     focused l' = focused l \<and> map item_key (items l') = map item_key (items l)"

subsection \<open>Example inputs\<close>

text \<open>
  A plain item: a fixed view whatever its size and focus state, and no commands. The
  scenario list has five focusable single-line items.
\<close>

definition text_item :: "string \<Rightarrow> bool \<Rightarrow> string \<Rightarrow> item" where
  "text_item i f v =
     \<lparr>item_id = i, item_focusable = f, item_focused = False, item_size = (0, 0),
      item_render = (\<lambda>sz fo. v), item_init_cmd = None, item_size_cmd = None,
      item_focus_cmd = None, item_blur_cmd = None\<rparr>"

definition five_items :: "item list" where
  "five_items =
     [text_item ''0'' True ''item 0'', text_item ''1'' True ''item 1'',
      text_item ''2'' True ''item 2'', text_item ''3'' True ''item 3'',
      text_item ''4'' True ''item 4'']"

definition five_list :: "tlist option" where
  "five_list = run (Init (New five_items [WithDirectionForward, WithSize 80 3]))"

definition mixed_items :: "item list" where
  "mixed_items =
     [text_item ''A'' True ''head'',
      text_item ''B'' False (''b1'' @ [NL] @ ''b2'' @ [NL] @ ''b3'' @ [NL] @ ''b4'' @ [NL] @ ''b5'')]"

definition mixed_list :: "tlist option" where
  "mixed_list = run (Init (New mixed_items [WithDirectionForward, WithSize 80 3]))"

definition five_list_third :: "tlist option" where
  "five_list_third = Option.bind five_list (\<lambda>l. run (SetSelected l ''2''))"

text \<open>
  The scenario of C4: five single-line items, viewport height 3, forward direction, then
  \<open>GoToBottom\<close> and \<open>MoveUp 2\<close>; with the follow-up actions run after every step,
  with the follow-up actions left pending, and with items that cannot take the focus.
  \<open>visible\<close> is the visible line range and the lines \<open>View\<close> takes for it.
\<close>

definition visible :: "tlist \<Rightarrow> (int \<times> int) \<times> (error + string)" where
  "visible l = (viewPosition l, getLines l (max 0 (fst (viewPosition l))) (snd (viewPosition l)))"

definition scenario_bottom_up :: "tlist option" where
  "scenario_bottom_up =
     Option.bind five_list (\<lambda>l0.
       Option.bind (run (GoToBottom l0)) (\<lambda>l1. run (MoveUp l1 2)))"

definition scenario_bottom_up_pending :: "tlist option" where
  "scenario_bottom_up_pending =
     Option.bind (Init (New five_items [WithDirectionForward, WithSize 80 3])) (\<lambda>(c0, l0).
       Option.bind (GoToBottom l0) (\<lambda>(c1, l1). map_option snd (MoveUp l1 2)))"

definition plain_items :: "item list" where
  "plain_items = map (\<lambda>it. it\<lparr>item_focusable := False\<rparr>) five_items"

definition scenario_bottom_up_plain :: "tlist option" where
  "scenario_bottom_up_plain =
     Option.bind (run (Init (New plain_items [WithDirectionForward, WithSize 80 3]))) (\<lambda>l0.
       Option.bind (run (GoToBottom l0)) (\<lambda>l1. run (MoveUp l1 2)))"

text \<open>
  A list with given selection endpoints \<open>p\<close> (start) and \<open>q\<close> (end), each a
  (column, line) pair; and a column that lands on a space as \<open>findWordBoundaries\<close>
  counts columns: the screen line translates to a line of the buffer, and the grapheme
  cluster of that line at index \<open>col\<close> is a single space.
\<close>

definition with_selection :: "tlist \<Rightarrow> int \<times> int \<Rightarrow> int \<times> int \<Rightarrow> tlist" where
  "with_selection l p q =
     l\<lparr>selectionStartCol := fst p, selectionStartLine := snd p,
       selectionEndCol := fst q, selectionEndLine := snd q\<rparr>"


text \<open>
  A small environment for concrete inputs: one cell per byte of the view, blank cells
  elsewhere on the screen, rendering as the plain contents, no ANSI sequences, and one
  grapheme cluster per byte with a word boundary wherever a space meets a non-space.
\<close>

definition ascii_draw :: "string \<Rightarrow> int \<Rightarrow> int \<Rightarrow> screen" where
  "ascii_draw v w h =
     \<lparr>scr_w = w, scr_h = h,
      scr_cells = (\<lambda>(x, y).
        if 0 \<le> x \<and> x < w \<and> 0 \<le> y \<and> y < h then
          (let ls = strings_Split v in
           if y < int (length ls) \<and> x < int (length (ls ! nat y))
           then Some \<lparr>cell_content = [ls ! nat y ! nat x], cell_bg = None, cell_fg = None\<rparr>
           else Some \<lparr>cell_content = '' '', cell_bg = None, cell_fg = None\<rparr>)
        else None)\<rparr>"

definition ascii_render :: "screen \<Rightarrow> string" where
  "ascii_render scr =
     concat (map (\<lambda>y. concat (map (\<lambda>x.
         (case scr_cells scr (x, y) of
            None \<Rightarrow> []
          | Some c \<Rightarrow> cell_content c))
       [0..scr_w scr - 1]) @ [NL]) [0..scr_h scr - 1])"

fun ascii_graphemes :: "string \<Rightarrow> (string \<times> bool) list" where
  "ascii_graphemes [] = []"
| "ascii_graphemes [c] = [([c], True)]"
| "ascii_graphemes (c # d # cs) =
     ([c], (c = CHR '' '') \<noteq> (d = CHR '' '')) # ascii_graphemes (d # cs)"

definition ascii_env :: env where
  "ascii_env =
     \<lparr>env_draw = ascii_draw, env_render = ascii_render,
      env_base_render = (\<lambda>h w v. v), env_sel_bg = Some ''bg'', env_sel_fg = Some ''fg'',
      env_ignore_icons = [], env_strip = (\<lambda>s. s), env_graphemes = ascii_graphemes\<rparr>"

definition words_list :: tlist where
  "words_list = setRendered (New [] [WithSize 11 1]) ''foo bar baz''"

text \<open>
  The scroll invariant of the spec's data model, and a list with one tall item and the
  last item selected.
\<close>

definition offset_in_bounds :: "tlist \<Rightarrow> bool" where
  "offset_in_bounds l \<longleftrightarrow>
     0 \<le> offset l \<and> offset l \<le> max 0 (renderedHeight l - height l)"

definition tall_items :: "item list" where
  "tall_items =
     [text_item ''A'' True (''a1'' @ [NL] @ ''a2'' @ [NL] @ ''a3'' @ [NL] @ ''a4'' @ [NL] @ ''a5''),
      text_item ''B'' True ''b'', text_item ''C'' True ''c'', text_item ''D'' True ''d'',
      text_item ''E'' True ''e'', text_item ''F'' True ''f'']"

definition tall_list :: "tlist option" where
  "tall_list =
     Option.bind (run (Init (New tall_items [WithDirectionForward, WithSize 80 3])))
       (\<lambda>l. run (SetSelected l ''F''))"


definition ordered_items :: "tlist \<Rightarrow> item list" where
  "ordered_items l = (if direction l = DirectionForward then items l else rev (items l))"






text \<open>
  The size bound under which a render pass of the whole list returns: the gap is not
  negative, every view that an item of the list gives at its size (focused or not) or
  has in the render cache is at most \<open>B\<close> bytes long, and the items with such views
  and gaps take less than \<open>2 ^ 31\<close> bytes together. Then the size estimate that
  \<open>renderIterator\<close> hands to \<open>b.Grow\<close> is not negative and fits an \<open>int\<close>.
\<close>

definition views_fit :: "nat \<Rightarrow> tlist \<Rightarrow> bool" where
  "views_fit B l \<longleftrightarrow>
     0 \<le> gap l \<and>
     (\<forall>it \<in> set (items l).
        length (item_render it (item_size it) True) \<le> B \<and>
        length (item_render it (item_size it) False) \<le> B) \<and>
     (\<forall>it \<in> set (items l).
        case renderedItems l (item_id it) of
          None \<Rightarrow> True
        | Some r \<Rightarrow> length (ri_view r) \<le> B) \<and>
     int (length (items l)) * (int B + gap l + 1) < 2 ^ 31"










section \<open>Properties\<close>

subsection \<open>The visible line range\<close>

lemma wrap64_id: "int64 x \<Longrightarrow> wrap64 x = x"
  by (simp add: int64_def wrap64_def)

lemma wrap64_add_left: "wrap64 (wrap64 x + y) = wrap64 (x + y)"
proof -
  have "(wrap64 x + y + 2 ^ 63) mod 2 ^ 64 = ((x + 2 ^ 63) mod 2 ^ 64 + y) mod 2 ^ 64"
    by (simp add: wrap64_def)
  also have "\<dots> = (x + 2 ^ 63 + y) mod 2 ^ 64" by (rule mod_add_left_eq)
  also have "\<dots> = (x + y + 2 ^ 63) mod 2 ^ 64" by (simp add: ac_simps)
  finally have e: "(wrap64 x + y + 2 ^ 63) mod 2 ^ 64 = (x + y + 2 ^ 63) mod 2 ^ 64" .
  show ?thesis
    unfolding wrap64_def [of "wrap64 x + y"] wrap64_def [of "x + y"] e ..
qed

lemma wrap64_diff_left: "wrap64 (wrap64 x - y) = wrap64 (x - y)"
  using wrap64_add_left [of x "- y"] by simp

text \<open>
  C1, as amended. In forward direction the range ends at
  \<open>min (offset + viewportHeight - 1) (totalRenderedHeight - 1)\<close> and starts at
  \<open>max 0 offset\<close>; in backward direction it ends at
  \<open>max 0 (totalRenderedHeight - 1 - offset)\<close> and starts at
  \<open>max 0 (end - viewportHeight + 1)\<close>; in both the start is then clamped to the end, so
  that \<open>start \<le> end\<close>. This holds for every offset, viewport height and rendered
  height for which the numbers the code computes are in the range of a 64-bit integer:
  \<open>totalRenderedHeight - 1\<close>, in forward direction \<open>offset + viewportHeight - 1\<close>, in
  backward direction \<open>totalRenderedHeight - 1 - offset\<close> and
  \<open>totalRenderedHeight - 1 - offset - viewportHeight + 1\<close>.
\<close>

theorem viewPosition_range:
  assumes "int64 (renderedHeight l - 1)"
    and "if direction l = DirectionForward
         then int64 (offset l + height l - 1)
         else int64 (renderedHeight l - 1 - offset l) \<and>
              int64 (renderedHeight l - 1 - offset l - height l + 1)"
  shows "viewPosition l =
     (if direction l = DirectionForward
      then (let e = min (offset l + height l - 1) (renderedHeight l - 1)
            in (min (max 0 (offset l)) e, e))
      else (let e = max 0 (renderedHeight l - 1 - offset l)
            in (min (max 0 (e - height l + 1)) e, e)))
   \<and> fst (viewPosition l) \<le> snd (viewPosition l)"
proof (cases "direction l = DirectionForward")
  case True
  have e: "wrap64 (wrap64 (offset l + height l) - 1) = offset l + height l - 1"
    using assms(2) True by (simp add: wrap64_diff_left wrap64_id)
  show ?thesis
    using True by (auto simp: viewPosition_def Let_def e wrap64_id [OF assms(1)])
next
  case False
  have a: "int64 (renderedHeight l - 1 - offset l)"
    "int64 (renderedHeight l - 1 - offset l - height l + 1)"
    using assms(2) False by simp_all
  have e1: "wrap64 (renderedHeight l - 1 - offset l) = renderedHeight l - 1 - offset l"
    using a(1) by (rule wrap64_id)
  have e2: "wrap64 (wrap64 (renderedHeight l - 1 - offset l - height l) + 1)
      = renderedHeight l - 1 - offset l - height l + 1"
    using a(2) by (simp add: wrap64_add_left wrap64_id)
  show ?thesis
    using False by (auto simp: viewPosition_def Let_def e1 e2 wrap64_id [OF assms(1)])
qed

theorem viewPosition_range_witness:
  "int64 (renderedHeight (the five_list) - 1) \<and>
   direction (the five_list) = DirectionForward \<and>
   int64 (offset (the five_list) + height (the five_list) - 1) \<and>
   viewPosition (the five_list) = (0, 2)"
proof -
  have h: "int64 (renderedHeight (the five_list) - 1)"
    "direction (the five_list) = DirectionForward"
    "int64 (offset (the five_list) + height (the five_list) - 1)"
    by code_simp+
  have v: "(let e = min (offset (the five_list) + height (the five_list) - 1)
                      (renderedHeight (the five_list) - 1)
            in (min (max 0 (offset (the five_list))) e, e)) = (0, 2)"
    by code_simp
  from viewPosition_range [of "the five_list"] h v show ?thesis by simp
qed

text \<open>
  The claim as stated fails. On the five rendered items scrolled down by two lines,
  \<open>SetSize\<close> to the same width and the height \<open>2 ^ 63 - 1\<close> leaves the offset 2 and
  the rendered height 5; \<open>offset + viewportHeight\<close> wraps, and the visible range is
  \<open>(- 2 ^ 63, - 2 ^ 63)\<close>, where the claim's \<open>max 0 offset\<close> and
  \<open>min (offset + viewportHeight - 1) (totalRenderedHeight - 1)\<close> are 2 and 4.
\<close>

theorem viewPosition_counterexample:
  "Option.bind five_list (\<lambda>l0. Option.bind (run (MoveDown l0 2)) (\<lambda>l1.
     map_option (\<lambda>r. (direction (snd r), offset (snd r), height (snd r),
                       renderedHeight (snd r), viewPosition (snd r),
                       (max 0 (offset (snd r)),
                        min (offset (snd r) + height (snd r) - 1) (renderedHeight (snd r) - 1))))
       (SetSize l1 80 9223372036854775807)))
   = Some (DirectionForward, 2, 9223372036854775807, 5,
           (- 9223372036854775808, - 9223372036854775808), (2, 4))"
  by code_simp

subsection \<open>Slicing the rendered buffer by lines\<close>

lemma strings_Split_nonempty: "strings_Split r \<noteq> []"
  by (induction r) (auto split: list.splits)

lemma join_lines_Cons: "xs \<noteq> [] \<Longrightarrow> join_lines (x # xs) = x @ NL # join_lines xs"
  by (cases xs) auto

lemma join_strings_Split: "join_lines (strings_Split r) = r"
proof (induction r)
  case Nil
  show ?case by simp
next
  case (Cons c cs)
  obtain x xs where sp: "strings_Split cs = x # xs"
    using strings_Split_nonempty [of cs] by (cases "strings_Split cs") auto
  show ?case
  proof (cases "c = NL")
    case True
    then show ?thesis using Cons by (simp add: join_lines_Cons strings_Split_nonempty)
  next
    case False
    then show ?thesis using Cons sp by (cases xs) auto
  qed
qed

lemma strings_Split_no_NL: "x \<in> set (strings_Split r) \<Longrightarrow> NL \<notin> set x"
proof (induction r arbitrary: x)
  case Nil
  then show ?case by simp
next
  case (Cons c cs)
  then show ?case
    by (cases "strings_Split cs") (auto split: if_splits)
qed

lemma IndexByte_absent: "c \<notin> set s \<Longrightarrow> IndexByte s c = -1"
  by (induction s) auto

lemma IndexByte_first: "c \<notin> set s \<Longrightarrow> IndexByte (s @ c # t) c = int (length s)"
  by (induction s) (auto simp: Let_def)

text \<open>The loop of \<open>setRendered\<close> records the start of every line after the first.\<close>

lemma lineOffsets_loop_join:
  "\<forall>x \<in> set (x0 # xs). NL \<notin> set x \<Longrightarrow> drop off r = join_lines (x0 # xs) \<Longrightarrow>
   lineOffsets_loop r off acc = acc @ map int (line_starts (off + length x0 + 1) xs)"
proof (induction xs arbitrary: x0 off acc)
  case Nil
  then have "IndexByte (drop off r) NL = -1" by (simp add: IndexByte_absent)
  then show ?case by (subst lineOffsets_loop.simps) simp
next
  case (Cons x1 xs)
  have d: "drop off r = x0 @ NL # join_lines (x1 # xs)" using Cons.prems(2) by simp
  have nl: "NL \<notin> set x0" using Cons.prems(1) by simp
  have ib: "IndexByte (drop off r) NL = int (length x0)"
    unfolding d using nl by (rule IndexByte_first)
  have "drop (off + length x0 + 1) r = drop (length x0 + 1) (drop off r)"
    by (simp add: add.commute add.left_commute)
  also have "\<dots> = join_lines (x1 # xs)" unfolding d by simp
  finally have d': "drop (off + length x0 + 1) r = join_lines (x1 # xs)" .
  have all': "\<forall>x \<in> set (x1 # xs). NL \<notin> set x" using Cons.prems(1) by simp
  have "lineOffsets_loop r off acc =
        lineOffsets_loop r (off + length x0 + 1) (acc @ [int (off + length x0 + 1)])"
    by (subst lineOffsets_loop.simps) (simp add: ib Let_def)
  also have "\<dots> = (acc @ [int (off + length x0 + 1)]) @
        map int (line_starts (off + length x0 + 1 + length x1 + 1) xs)"
    by (rule Cons.IH [OF all' d'])
  finally show ?case by simp
qed

lemma lineOffsets_loop_Split:
  "lineOffsets_loop r 0 [0] = map int (line_starts 0 (strings_Split r))"
proof -
  obtain x0 xs where sp: "strings_Split r = x0 # xs"
    using strings_Split_nonempty [of r] by (cases "strings_Split r") auto
  have a: "\<forall>x \<in> set (x0 # xs). NL \<notin> set x"
    using strings_Split_no_NL [of _ r] sp by auto
  have b: "drop 0 r = join_lines (x0 # xs)"
    using join_strings_Split [of r] sp by simp
  show ?thesis using lineOffsets_loop_join [OF a b, of "[0]"] sp by simp
qed

lemma length_line_starts: "length (line_starts k xs) = length xs"
  by (induction xs arbitrary: k) auto

lemma line_starts_nth:
  "i < length xs \<Longrightarrow> line_starts k xs ! i = k + (\<Sum>x\<leftarrow>take i xs. length x + 1)"
proof (induction xs arbitrary: k i)
  case Nil
  then show ?case by simp
next
  case (Cons x xs)
  then show ?case by (cases i) auto
qed

lemma drop_join_lines:
  "i < length xs \<Longrightarrow> drop (\<Sum>x\<leftarrow>take i xs. length x + 1) (join_lines xs) = join_lines (drop i xs)"
proof (induction xs arbitrary: i)
  case Nil
  then show ?case by simp
next
  case (Cons x xs)
  show ?case
  proof (cases i)
    case 0
    then show ?thesis by simp
  next
    case (Suc j)
    then have j: "j < length xs" using Cons.prems by simp
    then have ne: "xs \<noteq> []" by auto
    show ?thesis using Cons.IH [OF j] Suc ne by (simp add: join_lines_Cons)
  qed
qed

lemma take_join_lines:
  "0 < m \<Longrightarrow> m < length xs \<Longrightarrow>
   take ((\<Sum>x\<leftarrow>take m xs. length x + 1) - 1) (join_lines xs) = join_lines (take m xs)"
proof (induction xs arbitrary: m)
  case Nil
  then show ?case by simp
next
  case (Cons x xs)
  obtain j where m: "m = Suc j" using Cons.prems(1) by (cases m) auto
  have ne: "xs \<noteq> []" using Cons.prems(2) m by auto
  show ?case
  proof (cases j)
    case 0
    then show ?thesis using m ne by (simp add: join_lines_Cons)
  next
    case (Suc k)
    then have j: "0 < j" "j < length xs" using Cons.prems(2) m by auto
    have tne: "take j xs \<noteq> []" using j ne by (cases xs) auto
    have pos: "0 < (\<Sum>x\<leftarrow>take j xs. length x + 1)"
      using tne by (cases "take j xs") auto
    obtain S where S: "(\<Sum>x\<leftarrow>take j xs. length x + 1) = Suc S"
      using pos by (cases "\<Sum>x\<leftarrow>take j xs. length x + 1") auto
    show ?thesis using Cons.IH [OF j] m ne tne S
      by (simp add: join_lines_Cons)
  qed
qed

lemma line_sum_le: "i < length xs \<Longrightarrow> line_sum xs i \<le> length (join_lines xs)"
  unfolding line_sum_def
proof (induction xs arbitrary: i)
  case Nil
  then show ?case by simp
next
  case (Cons x xs)
  show ?case
  proof (cases i)
    case 0
    then show ?thesis by simp
  next
    case (Suc k)
    then have k: "k < length xs" using Cons.prems by simp
    then have "xs \<noteq> []" by auto
    then show ?thesis using Cons.IH [OF k] Suc by (simp add: join_lines_Cons)
  qed
qed

lemma line_sum_add:
  "line_sum xs (i + m) = line_sum xs i + line_sum (drop i xs) m"
  by (simp add: line_sum_def take_add)

lemma line_sum_pos: "0 < m \<Longrightarrow> xs \<noteq> [] \<Longrightarrow> 0 < line_sum xs m"
  by (cases xs; cases m) (auto simp: line_sum_def)

lemma join_lines_take_empty: "join_lines ys = [] \<Longrightarrow> join_lines (take m ys) = []"
proof (cases ys)
  case Nil
  then show ?thesis by simp
next
  case (Cons y zs)
  assume e: "join_lines ys = []"
  then have "zs = []" using Cons by (cases zs) auto
  then show ?thesis using e Cons by (cases m) auto
qed

lemma slice_inner:
  assumes "i \<le> j" and "j + 1 < length xs"
  shows "take (line_sum xs (j + 1) - 1 - line_sum xs i) (drop (line_sum xs i) (join_lines xs))
           = join_lines (take (j - i + 1) (drop i xs))"
    and "line_sum xs i + 1 \<le> line_sum xs (j + 1)"
    and "line_sum xs (j + 1) \<le> length (join_lines xs)"
proof -
  define ys where "ys = drop i xs"
  define m where "m = j - i + 1"
  have m: "0 < m" "m < length ys" "j + 1 = i + m" using assms by (auto simp: m_def ys_def)
  have i: "i < length xs" using assms by simp
  have add: "line_sum xs (j + 1) = line_sum xs i + line_sum ys m"
    using m(3) line_sum_add [of xs i m] by (simp add: ys_def)
  have yne: "ys \<noteq> []" using m by auto
  have pos: "0 < line_sum ys m" using line_sum_pos [OF m(1) yne] .
  have dr: "drop (line_sum xs i) (join_lines xs) = join_lines ys"
    using drop_join_lines [OF i] by (simp add: line_sum_def ys_def)
  have "take (line_sum ys m - 1) (join_lines ys) = join_lines (take m ys)"
    using take_join_lines [OF m(1) m(2)] by (simp add: line_sum_def)
  then show "take (line_sum xs (j + 1) - 1 - line_sum xs i) (drop (line_sum xs i) (join_lines xs))
           = join_lines (take (j - i + 1) (drop i xs))"
    using dr add pos by (simp add: m_def ys_def)
  show "line_sum xs i + 1 \<le> line_sum xs (j + 1)" using add pos by simp
  show "line_sum xs (j + 1) \<le> length (join_lines xs)"
    using line_sum_le [OF assms(2)] .
qed

lemma spec_lines_between_take:
  "spec_lines_between r start end0 =
     join_lines (take (nat (end0 - start + 1)) (drop (nat start) (strings_Split r)))"
proof (cases "end0 \<le> int (length (strings_Split r)) - 1")
  case True
  then show ?thesis by (simp add: spec_lines_between_def Let_def min_def)
next
  case False
  then have "length (drop (nat start) (strings_Split r))
        \<le> nat (int (length (strings_Split r)) - 1 - start + 1)"
    and "length (drop (nat start) (strings_Split r)) \<le> nat (end0 - start + 1)"
    by auto
  then show ?thesis using False by (simp add: spec_lines_between_def Let_def min_def)
qed

text \<open>
  C3. For every line range with \<open>0 \<le> start \<le> end\<close>, \<open>getLines\<close> on a buffer
  installed by \<open>setRendered\<close> returns, without a panic, exactly the lines \<open>start\<close> to
  \<open>end\<close> of the rendered string joined by newlines, the end clamped to the last line.
  The result depends on the rendered string alone: \<open>setRendered\<close> recomputes the line
  offsets from the whole string, however the string was put together.
\<close>

theorem getLines_exact:
  assumes "0 \<le> start" and "start \<le> end0"
  shows "getLines (setRendered l r) start end0 = Inr (spec_lines_between r start end0)"
proof (cases "r = []")
  case True
  then show ?thesis using assms
    by (cases "nat start")
       (auto simp: getLines_def setRendered_def spec_lines_between_take)
next
  case False
  define xs where "xs = strings_Split r"
  define n where "n = length xs"
  define i where "i = nat start"
  have lo: "lineOffsets (setRendered l r) = map int (line_starts 0 xs)"
    using False by (simp add: setRendered_def lineOffsets_loop_Split xs_def)
  have rd: "rendered (setRendered l r) = r" by (simp add: setRendered_def)
  have len: "int (length (lineOffsets (setRendered l r))) = int n"
    by (simp add: lo length_line_starts n_def)
  have npos: "0 < n" using strings_Split_nonempty [of r] by (simp add: n_def xs_def)
  have jr: "join_lines xs = r" by (simp add: xs_def join_strings_Split)
  show ?thesis
  proof (cases "start \<ge> int n")
    case True
    then have "drop (nat start) xs = []" by (simp add: n_def)
    then show ?thesis using True len
      by (simp add: getLines_def spec_lines_between_take xs_def Let_def)
  next
    case sn: False
    then have i: "i < n" "start = int i" using assms(1) by (auto simp: i_def)
    define j where "j = nat (if end0 \<ge> int n then int n - 1 else end0)"
    have j: "i \<le> j" "j < n" "(if end0 \<ge> int n then int n - 1 else end0) = int j"
      using assms i npos by (auto simp: j_def)
    have so: "index_int (lineOffsets (setRendered l r)) start = Inr (int (line_sum xs i))"
      using i by (simp add: index_int_def lo length_line_starts n_def line_starts_nth line_sum_def)
    have dr: "drop (line_sum xs i) r = join_lines (drop i xs)"
      using drop_join_lines [of i xs] i jr by (simp add: line_sum_def n_def)
    have Sle: "line_sum xs i \<le> length r"
      using line_sum_le [of i xs] i jr by (simp add: n_def)
    have lb: "spec_lines_between r start end0
        = join_lines (take (nat (end0 - start + 1)) (drop i xs))"
      by (simp add: spec_lines_between_take xs_def i_def)
    show ?thesis
    proof (cases "j + 1 < n")
      case True
      then have e0: "end0 = int j" using j(3) by (auto split: if_splits)
      have eo: "index_int (lineOffsets (setRendered l r)) (int j + 1)
          = Inr (int (line_sum xs (j + 1)))"
        using True
        by (simp add: index_int_def lo length_line_starts n_def line_starts_nth line_sum_def
            nat_add_distrib)
      note si = slice_inner [of i j xs, OF j(1), unfolded jr]
      have t: "j + 1 < length xs" using True by (simp add: n_def)
      have cnt: "nat (end0 - start + 1) = j - i + 1" using e0 i j by simp
      show ?thesis
      proof (cases "int (line_sum xs i) \<ge> int (length r)")
        case True
        then have "drop (line_sum xs i) r = []" by simp
        then have "join_lines (drop i xs) = []" using dr by simp
        then have "spec_lines_between r start end0 = []"
          using lb join_lines_take_empty by simp
        then show ?thesis using sn len j(1) i(2) e0 True so eo \<open>j + 1 < n\<close>
          by (simp add: getLines_def Let_def rd)
      next
        case False
        have hi: "min (int (line_sum xs (j + 1)) - 1) (int (length r))
            = int (line_sum xs (j + 1)) - 1"
          using si(3) [OF t] by simp
        have sl: "slice_str r (int (line_sum xs i)) (int (line_sum xs (j + 1)) - 1)
                = Inr (join_lines (take (j - i + 1) (drop i xs)))"
          using si(1) [OF t] si(2) [OF t] si(3) [OF t]
          by (simp add: slice_str_def nat_diff_distrib')
        show ?thesis using sn len j(1) i(2) e0 False so eo \<open>j + 1 < n\<close> hi sl lb cnt
          by (simp add: getLines_def Let_def rd)
      qed
    next
      case False
      then have jn: "j = n - 1" using j by simp
      have cnt: "length (drop i xs) \<le> nat (end0 - start + 1)"
        using jn j(3) i npos by (auto simp: n_def split: if_splits)
      then have lb': "spec_lines_between r start end0 = join_lines (drop i xs)"
        using lb by simp
      show ?thesis
      proof (cases "int (line_sum xs i) \<ge> int (length r)")
        case True
        then have "drop (line_sum xs i) r = []" by simp
        then have "spec_lines_between r start end0 = []" using lb' dr by simp
        then show ?thesis using sn len j i(2) True so \<open>\<not> j + 1 < n\<close>
          by (simp add: getLines_def Let_def rd)
      next
        case F2: False
        have sl: "slice_str r (int (line_sum xs i)) (int (length r))
            = Inr (join_lines (drop i xs))"
        proof -
          have "take (length r - line_sum xs i) (drop (line_sum xs i) r)
              = drop (line_sum xs i) r"
            by simp
          then show ?thesis using Sle dr by (simp add: slice_str_def nat_diff_distrib')
        qed
        show ?thesis using sn len j i(2) F2 so \<open>\<not> j + 1 < n\<close> sl lb'
          by (simp add: getLines_def Let_def rd)
      qed
    qed
  qed
qed

theorem getLines_exact_witness:
  "(0::int) \<le> 1 \<and> (1::int) \<le> 5 \<and>
   getLines (setRendered (New [] []) (''ab'' @ [NL] @ ''cd'' @ [NL] @ ''ef'')) 1 5
     = Inr (''cd'' @ [NL] @ ''ef'')"
  using getLines_exact [of 1 5 "New [] []" "''ab'' @ [NL] @ ''cd'' @ [NL] @ ''ef''"]
  by (simp add: spec_lines_between_def NL_def)

subsection \<open>The default selection and what \<open>render\<close> keeps\<close>

lemma scanBelow_result:
  "0 \<le> i \<Longrightarrow>
   (case scanBelow xs i of
      None \<Rightarrow> first_focusable_id (drop (nat i) xs) = [] \<and> (\<forall>x \<in> set (drop (nat i) xs). \<not> item_focusable x)
    | Some k \<Rightarrow> i \<le> k \<and> k < int (length xs) \<and> item_focusable (xs ! nat k) \<and>
        first_focusable_id (drop (nat i) xs) = item_id (xs ! nat k))"
proof (induction xs i rule: scanBelow.induct)
  case (1 xs i)
  show ?case
  proof (cases "i < slice_Len xs")
    case False
    then show ?thesis by (subst scanBelow.simps) (simp add: slice_Len_def)
  next
    case True
    then have lt: "nat i < length xs" using 1(3) by (simp add: slice_Len_def)
    have g: "slice_Get xs i = Some (xs ! nat i)" using lt 1(3) by (simp add: slice_Get_def)
    have d: "drop (nat i) xs = xs ! nat i # drop (nat (i + 1)) xs"
      using lt 1(3) by (simp add: Cons_nth_drop_Suc nat_add_distrib)
    show ?thesis
    proof (cases "item_focusable (xs ! nat i)")
      case f: True
      then show ?thesis using True g d lt 1(3) by (subst scanBelow.simps) simp
    next
      case f: False
      have ih: "case scanBelow xs (i + 1) of
          None \<Rightarrow> first_focusable_id (drop (nat (i + 1)) xs) = [] \<and> (\<forall>x \<in> set (drop (nat (i + 1)) xs). \<not> item_focusable x)
        | Some k \<Rightarrow> i + 1 \<le> k \<and> k < int (length xs) \<and> item_focusable (xs ! nat k) \<and>
            first_focusable_id (drop (nat (i + 1)) xs) = item_id (xs ! nat k)"
        using 1(2) [OF True g f] 1(3) by simp
      have "scanBelow xs i = scanBelow xs (i + 1)"
        using True g f by (subst scanBelow.simps) simp
      then show ?thesis using ih d f by (auto split: option.splits)
    qed
  qed
qed

lemma scanAbove_result:
  "i < int (length xs) \<Longrightarrow>
   (case scanAbove xs i of
      None \<Rightarrow> first_focusable_id (rev (take (nat (i + 1)) xs)) = [] \<and> (\<forall>x \<in> set (take (nat (i + 1)) xs). \<not> item_focusable x)
    | Some k \<Rightarrow> 0 \<le> k \<and> k \<le> i \<and> item_focusable (xs ! nat k) \<and>
        first_focusable_id (rev (take (nat (i + 1)) xs)) = item_id (xs ! nat k))"
proof (induction xs i rule: scanAbove.induct)
  case (1 xs i)
  show ?case
  proof (cases "i \<ge> 0")
    case False
    then show ?thesis by (subst scanAbove.simps) simp
  next
    case True
    then have lt: "nat i < length xs" using 1(3) by simp
    have g: "slice_Get xs i = Some (xs ! nat i)" using lt True by (simp add: slice_Get_def)
    have t: "take (nat (i + 1)) xs = take (nat i) xs @ [xs ! nat i]"
      using lt True by (simp add: take_Suc_conv_app_nth nat_add_distrib)
    show ?thesis
    proof (cases "item_focusable (xs ! nat i)")
      case f: True
      then show ?thesis using True g t lt by (subst scanAbove.simps) simp
    next
      case f: False
      have ih: "case scanAbove xs (i - 1) of
          None \<Rightarrow> first_focusable_id (rev (take (nat i) xs)) = [] \<and> (\<forall>x \<in> set (take (nat i) xs). \<not> item_focusable x)
        | Some k \<Rightarrow> 0 \<le> k \<and> k \<le> i - 1 \<and> item_focusable (xs ! nat k) \<and>
            first_focusable_id (rev (take (nat i) xs)) = item_id (xs ! nat k)"
      proof -
        have e: "i - 1 + 1 = i" by simp
        have "i - 1 < int (length xs)" using 1(3) by simp
        from 1(2) [OF True g f this, unfolded e] show ?thesis .
      qed
      have "scanAbove xs i = scanAbove xs (i - 1)"
        using True g f by (subst scanAbove.simps) simp
      then show ?thesis using ih t f by (auto split: option.splits)
    qed
  qed
qed

lemma firstSelectableItemBelow_start:
  assumes "items l \<noteq> []"
  shows "firstSelectableItemBelow l (-1) =
     Some (case scanBelow (items l) 0 of Some i \<Rightarrow> i | None \<Rightarrow> ItemNotFound)"
  using assms
  by (subst firstSelectableItemBelow.simps) (auto simp: slice_Len_def split: option.splits)

lemma firstSelectableItemAbove_end:
  assumes "items l \<noteq> []"
  shows "firstSelectableItemAbove l (slice_Len (items l)) =
     Some (case scanAbove (items l) (slice_Len (items l) - 1) of
             Some i \<Rightarrow> i | None \<Rightarrow> ItemNotFound)"
  using assms
  by (subst firstSelectableItemAbove.simps) (auto simp: slice_Len_def split: option.splits)

lemma selectFirstItem_result:
  assumes "items l \<noteq> []" and "selectedItem l = []"
  shows "selectFirstItem l = Some (l\<lparr>selectedItem := first_focusable_id (items l)\<rparr>)"
proof -
  note r = scanBelow_result [of 0 "items l", simplified]
  show ?thesis
  proof (cases "scanBelow (items l) 0")
    case None
    then show ?thesis using r assms
      by (simp add: selectFirstItem_def firstSelectableItemBelow_start)
  next
    case (Some k)
    then have k: "0 \<le> k" "k < int (length (items l))" "item_focusable (items l ! nat k)"
      "first_focusable_id (items l) = item_id (items l ! nat k)"
      using r by auto
    then show ?thesis using Some assms
      by (simp add: selectFirstItem_def firstSelectableItemBelow_start ItemNotFound_def
          slice_Get_def)
  qed
qed

lemma selectLastItem_result:
  assumes "items l \<noteq> []" and "selectedItem l = []"
  shows "selectLastItem l = Some (l\<lparr>selectedItem := first_focusable_id (rev (items l))\<rparr>)"
proof -
  have lt: "slice_Len (items l) - 1 < int (length (items l))" by (simp add: slice_Len_def)
  note r = scanAbove_result [OF lt, simplified]
  have tk: "take (nat (slice_Len (items l))) (items l) = items l" by (simp add: slice_Len_def)
  show ?thesis
  proof (cases "scanAbove (items l) (slice_Len (items l) - 1)")
    case None
    then show ?thesis using r assms tk
      by (simp add: selectLastItem_def firstSelectableItemAbove_end)
  next
    case (Some k)
    then have k: "0 \<le> k" "k \<le> slice_Len (items l) - 1" "item_focusable (items l ! nat k)"
      "first_focusable_id (rev (items l)) = item_id (items l ! nat k)"
      using r tk by auto
    have fa: "firstSelectableItemAbove l (slice_Len (items l)) = Some k"
      using Some assms by (simp add: firstSelectableItemAbove_end)
    have g: "slice_Get (items l) k = Some (items l ! nat k)"
      using k by (simp add: slice_Get_def slice_Len_def)
    show ?thesis using k(1,4) g
      by (simp add: selectLastItem_def fa ItemNotFound_def)
  qed
qed

lemma setDefaultSelected_result:
  assumes "items l \<noteq> []"
  shows "setDefaultSelected l =
     Some (if selectedItem l = []
           then l\<lparr>selectedItem := default_selected_id (direction l) (items l)\<rparr> else l)"
  using assms selectFirstItem_result [of l] selectLastItem_result [of l]
  by (simp add: setDefaultSelected_def default_selected_id_def)

lemma item_key_Focus [simp]: "item_key (item_Focus it) = item_key it"
  by (simp add: item_key_def item_Focus_def)

lemma item_key_Blur [simp]: "item_key (item_Blur it) = item_key it"
  by (simp add: item_key_def item_Blur_def)

lemma map_key_slice_Set:
  "slice_Get xs i = Some it \<Longrightarrow> item_key it' = item_key it \<Longrightarrow>
   map item_key (slice_Set xs i it') = map item_key xs"
  by (auto simp: slice_Get_def slice_Set_def map_update list_update_same_conv split: if_splits)

lemma keeps_refl [simp]: "keeps l l"
  by (simp add: keeps_def)

lemma keeps_trans: "keeps a b \<Longrightarrow> keeps b c \<Longrightarrow> keeps a c"
  by (simp add: keeps_def)

lemma keeps_blurPrevious: "keeps l (snd (blurPrevious l))"
  by (simp add: blurPrevious_def keeps_def map_key_slice_Set split: option.splits)

lemma keeps_focusCurrent: "keeps l (snd (focusCurrent l))"
  by (simp add: focusCurrent_def keeps_def map_key_slice_Set split: option.splits)

lemma keeps_prev: "keeps l (l\<lparr>prevSelectedItem := p\<rparr>)"
  by (simp add: keeps_def)

lemma keeps_focusSelectedItem: "keeps l (snd (focusSelectedItem l))"
proof (cases "selectedItem l = [] \<or> \<not> focused l")
  case True
  then show ?thesis by (simp add: focusSelectedItem_def)
next
  case False
  let ?l1 = "snd (blurPrevious l)"
  let ?l2 = "snd (focusCurrent ?l1)"
  have "snd (focusSelectedItem l) = ?l2\<lparr>prevSelectedItem := selectedItem ?l2\<rparr>"
    using False by (simp add: focusSelectedItem_def Let_def split_beta)
  then show ?thesis
    using keeps_trans [OF keeps_trans [OF keeps_blurPrevious keeps_focusCurrent] keeps_prev]
    by simp
qed

lemma keeps_blurSelectedItem: "keeps l (snd (blurSelectedItem l))"
  by (simp add: blurSelectedItem_def keeps_def map_key_slice_Set split: option.splits)

lemma render_pass_unfold:
  assumes "render_pass l s lim r = Some (fi, l')"
  shows "\<exists>r' ca. l' =
      (if direction l = DirectionBackward
       then recalculateItemPositions (setRendered (l\<lparr>renderedItems := ca\<rparr>) r')
       else setRendered (l\<lparr>renderedItems := ca\<rparr>) r') \<and>
      ca = fst (renderIterator_loop l lim s (renderedItems l) [] (lipgloss_Height r - 1))"
proof -
  obtain r' fi' l1 where ri: "renderIterator l s lim r = Some (r', fi', l1)"
    using assms by (cases "renderIterator l s lim r") (auto simp: render_pass_def)
  define ca where "ca = fst (renderIterator_loop l lim s (renderedItems l) [] (lipgloss_Height r - 1))"
  have dir: "direction (setRendered x y) = direction x" for x y
    by (simp add: setRendered_def)
  have l1: "l1 = l\<lparr>renderedItems := ca\<rparr>"
    using ri unfolding renderIterator_def ca_def
    by (simp add: split_beta Let_def split: if_splits)
  have "l' = (if direction l = DirectionBackward
       then recalculateItemPositions (setRendered (l\<lparr>renderedItems := ca\<rparr>) r')
       else setRendered (l\<lparr>renderedItems := ca\<rparr>) r')"
    using assms unfolding render_pass_def ri l1
    by (auto simp: Let_def dir)
  then show ?thesis using ca_def by blast
qed

lemma render_pass_frame:
  assumes "render_pass l s lim r = Some (fi, l')"
  shows "keeps l l'" and "items l' = items l" and "gap l' = gap l"
    and "height l' = height l" and "width l' = width l"
proof -
  obtain r' ca where e: "l' =
      (if direction l = DirectionBackward
       then recalculateItemPositions (setRendered (l\<lparr>renderedItems := ca\<rparr>) r')
       else setRendered (l\<lparr>renderedItems := ca\<rparr>) r')"
    using render_pass_unfold [OF assms] by blast
  show "keeps l l'" and "items l' = items l" and "gap l' = gap l"
    and "height l' = height l" and "width l' = width l"
    unfolding e
    by (simp_all add: setRendered_def recalculateItemPositions_def
        recalculateItemPositionsFrom_def Let_def keeps_def)
qed

lemma scrollToSelection_found:
  "renderedItems l (selectedItem l) = Some r \<Longrightarrow>
   \<exists>l'. scrollToSelection l = Some l' \<and> keeps l l'"
  by (simp add: scrollToSelection_def Let_def split_beta keeps_def)

lemma first_focusable_id_cong:
  "map item_key xs = map item_key ys \<Longrightarrow> first_focusable_id xs = first_focusable_id ys"
proof (induction xs arbitrary: ys)
  case Nil
  then show ?case by simp
next
  case (Cons x xs)
  then obtain y ys' where ys: "ys = y # ys'" by (cases ys) auto
  then have k: "item_key x = item_key y" and m: "map item_key xs = map item_key ys'"
    using Cons.prems by auto
  have "first_focusable_id xs = first_focusable_id ys'" using Cons.IH [OF m] .
  then show ?case using k ys by (simp add: item_key_def)
qed

lemma default_selected_id_cong:
  "map item_key xs = map item_key ys \<Longrightarrow>
   default_selected_id d xs = default_selected_id d ys"
  unfolding default_selected_id_def
  using first_focusable_id_cong [of xs ys] first_focusable_id_cong [of "rev xs" "rev ys"]
  by (simp add: rev_map [symmetric])

lemma keeps_nonempty: "keeps l l' \<Longrightarrow> items l \<noteq> [] \<Longrightarrow> items l' \<noteq> []"
  unfolding keeps_def by (metis list.map_disc_iff)

lemma scrollToSelection_result:
  assumes "items l \<noteq> []"
  shows "\<exists>l'. scrollToSelection l = Some l' \<and> direction l' = direction l \<and>
           focused l' = focused l \<and> map item_key (items l') = map item_key (items l) \<and>
           selectedItem l' =
             (if renderedItems l (selectedItem l) = None
              then default_selected_id (direction l) (items l) else selectedItem l)"
proof (cases "renderedItems l (selectedItem l)")
  case None
  have "scrollToSelection l = setDefaultSelected (l\<lparr>selectedItem := []\<rparr>)"
    using None by (simp add: scrollToSelection_def)
  also have "\<dots> = Some (l\<lparr>selectedItem := default_selected_id (direction l) (items l)\<rparr>)"
    using assms setDefaultSelected_result [of "l\<lparr>selectedItem := []\<rparr>"] by simp
  finally show ?thesis using None by simp
next
  case (Some r)
  then show ?thesis using scrollToSelection_found [OF Some] by (auto simp: keeps_def)
qed

subsection \<open>What \<open>render\<close> does to the selection\<close>

lemma renderIterator_loop_dom:
  assumes "0 \<le> i"
  shows "dom cache \<subseteq> dom (fst (renderIterator_loop l False i cache fr c)) \<and>
    (\<forall>j. i \<le> j \<and> j < slice_Len (items l) \<longrightarrow>
       item_id (items l ! nat (if direction l \<noteq> DirectionForward
                               then slice_Len (items l) - 1 - j else j))
         \<in> dom (fst (renderIterator_loop l False i cache fr c)))"
  using assms
proof (induction "nat (slice_Len (items l) - i)" arbitrary: i cache fr c)
  case 0
  then have ge: "\<not> i < slice_Len (items l)" by simp
  have e: "renderIterator_loop l False i cache fr c = (cache, fr, slice_Len (items l))"
    using ge by (subst renderIterator_loop.simps) (simp add: Let_def)
  show ?case unfolding e using ge by auto
next
  case (Suc n)
  then have lt: "i < slice_Len (items l)" by simp
  define inx where "inx = (if direction l \<noteq> DirectionForward
                             then slice_Len (items l) - 1 - i else i)"
  have rng: "0 \<le> inx" "inx < int (length (items l))"
    using lt Suc.prems by (auto simp: inx_def slice_Len_def)
  define it where "it = items l ! nat inx"
  have g: "slice_Get (items l) inx = Some it" using rng by (simp add: slice_Get_def it_def)
  define rItem where "rItem = (case cache (item_id it) of Some c0 \<Rightarrow> c0
      | None \<Rightarrow> (renderItem it)\<lparr>ri_start := c, ri_end := c + ri_height (renderItem it) - 1\<rparr>)"
  define cache' where "cache' = (case cache (item_id it) of Some c0 \<Rightarrow> cache
      | None \<Rightarrow> cache(item_id it \<mapsto> rItem))"
  define g0 where "g0 = (if inx = slice_Len (items l) - 1 then 0 else wrap64 (gap l + 1))"
  have step: "renderIterator_loop l False i cache fr c =
      renderIterator_loop l False (i + 1) cache' (fr @ [(ri_view rItem, g0)])
        (ri_end rItem + 1 + gap l)"
    using lt g
    by (subst renderIterator_loop.simps)
       (auto simp: Let_def inx_def [symmetric] rItem_def cache'_def g0_def
          split: option.splits)
  have n: "n = nat (slice_Len (items l) - (i + 1))" using Suc(2) by simp
  have i1: "0 \<le> i + 1" using Suc.prems by simp
  note ih = Suc(1) [OF n i1, of cache' "fr @ [(ri_view rItem, g0)]" "ri_end rItem + 1 + gap l"]
  have sub: "dom cache \<subseteq> dom cache'" and mem: "item_id it \<in> dom cache'"
    by (auto simp: cache'_def split: option.splits)
  show ?case
  proof (intro conjI allI impI)
    show "dom cache \<subseteq> dom (fst (renderIterator_loop l False i cache fr c))"
      using ih sub unfolding step by blast
  next
    fix j assume j: "i \<le> j \<and> j < slice_Len (items l)"
    show "item_id (items l ! nat (if direction l \<noteq> DirectionForward
                               then slice_Len (items l) - 1 - j else j))
         \<in> dom (fst (renderIterator_loop l False i cache fr c))"
    proof (cases "j = i")
      case True
      then show ?thesis using ih mem unfolding step it_def inx_def by blast
    next
      case False
      then have "i + 1 \<le> j \<and> j < slice_Len (items l)" using j by simp
      then show ?thesis using ih unfolding step by blast
    qed
  qed
qed

lemma recalculate_loop_dom: "dom (recalculate_loop l i cache c) = dom cache"
proof (induction "nat (slice_Len (items l) - i)" arbitrary: i cache c)
  case 0
  then have "\<not> i < slice_Len (items l)" by simp
  then show ?case by (subst recalculate_loop.simps) simp
next
  case (Suc n)
  then have lt: "i < slice_Len (items l)" by simp
  have n: "n = nat (slice_Len (items l) - (i + 1))" using Suc(2) by simp
  note ih = Suc(1) [OF n]
  show ?case
  proof (cases "slice_Get (items l) i")
    case None
    then show ?thesis using lt ih by (subst recalculate_loop.simps) simp
  next
    case (Some it)
    show ?thesis
    proof (cases "cache (item_id it)")
      case None
      then show ?thesis using lt ih Some by (subst recalculate_loop.simps) simp
    next
      case (Some r)
      then have "dom (cache(item_id it \<mapsto> r')) = dom cache" for r' by auto
      then show ?thesis using lt ih \<open>slice_Get (items l) i = Some it\<close> Some
        by (subst recalculate_loop.simps) (simp add: Let_def)
    qed
  qed
qed

lemma render_pass_cached:
  assumes "it \<in> set (items l)" and "render_pass l 0 False r = Some (fi, l')"
  shows "renderedItems l' (item_id it) \<noteq> None"
proof -
  obtain k where k: "k < length (items l)" "items l ! k = it"
    using assms(1) by (auto simp: in_set_conv_nth)
  define j where "j = (if direction l \<noteq> DirectionForward
                       then slice_Len (items l) - 1 - int k else int k)"
  have j: "0 \<le> j \<and> j < slice_Len (items l)" using k by (auto simp: j_def slice_Len_def)
  have inx: "nat (if direction l \<noteq> DirectionForward
                  then slice_Len (items l) - 1 - j else j) = k"
    by (auto simp: j_def)
  define res where "res = renderIterator_loop l False 0 (renderedItems l) [] (lipgloss_Height r - 1)"
  have "item_id it \<in> dom (fst res)"
    using renderIterator_loop_dom [of 0 "renderedItems l" l "[]" "lipgloss_Height r - 1"] j inx k(2)
    unfolding res_def by (metis order_refl)
  then have d: "fst res (item_id it) \<noteq> None" by auto
  obtain r' where e: "l' =
      (if direction l = DirectionBackward
       then recalculateItemPositions (setRendered (l\<lparr>renderedItems := fst res\<rparr>) r')
       else setRendered (l\<lparr>renderedItems := fst res\<rparr>) r')"
    using render_pass_unfold [OF assms(2)] unfolding res_def by blast
  have rd: "dom (renderedItems l') = dom (fst res)"
    unfolding e
    by (simp add: setRendered_def recalculateItemPositions_def
        recalculateItemPositionsFrom_def Let_def recalculate_loop_dom)
  show ?thesis using rd d by (metis domIff)
qed

text \<open>
  Under the size bound a render pass from the first item returns: the fragment count is
  not negative, every fragment is at most \<open>B\<close> bytes with a gap between 0 and
  \<open>gap + 1\<close>, there is at most one fragment per item, and so the size estimate is
  their exact sum.
\<close>

lemma estimatedSize_fits:
  assumes "\<forall>f \<in> set frs. int (length (fst f)) \<le> B \<and> 0 \<le> snd f \<and> snd f \<le> G"
    and "0 \<le> n" and "n + int (length frs) * (B + G) < 2 ^ 63"
  shows "0 \<le> foldl (\<lambda>n f. wrap64 (n + wrap64 (int (length (fst f)) + snd f))) n frs"
  using assms
proof (induction frs arbitrary: n)
  case Nil
  then show ?case by simp
next
  case (Cons f frs)
  define x where "x = int (length (fst f)) + snd f"
  have x: "0 \<le> x" "x \<le> B + G" using Cons.prems(1) by (auto simp: x_def)
  define K where "K = int (length frs) * (B + G)"
  have k: "0 \<le> K" using x by (simp add: K_def)
  have s: "n + int (length (f # frs)) * (B + G) = n + x + (B + G - x) + K"
    by (simp add: algebra_simps K_def)
  have ltK: "n + x + K < 2 ^ 63"
    using Cons.prems(3) x unfolding s by simp
  have lt: "n + x + int (length frs) * (B + G) < 2 ^ 63"
    using ltK by (simp add: K_def)
  have "int64 x" using x k ltK Cons.prems(2) by (simp add: int64_def)
  then have w1: "wrap64 x = x" by (rule wrap64_id)
  have "int64 (n + x)" using x k ltK Cons.prems(2) by (simp add: int64_def)
  then have w2: "wrap64 (n + x) = n + x" by (rule wrap64_id)
  have "0 \<le> foldl (\<lambda>n f. wrap64 (n + wrap64 (int (length (fst f)) + snd f))) (n + x) frs"
    using Cons.IH [of "n + x"] Cons.prems(1,2) x lt by simp
  then show ?case by (simp add: x_def [symmetric] w1 w2)
qed

lemma loop_fragments:
  assumes "0 \<le> i" and "i \<le> slice_Len (items l)"
    and "\<forall>it \<in> set (items l). length (item_View it) \<le> B"
    and "\<forall>it \<in> set (items l). \<forall>r. cache (item_id it) = Some r \<longrightarrow> length (ri_view r) \<le> B"
    and "\<forall>f \<in> set frs. length (fst f) \<le> B \<and> 0 \<le> snd f \<and> snd f \<le> gap l + 1"
    and "0 \<le> gap l" and "int64 (gap l + 1)"
  shows "(\<forall>f \<in> set (fst (snd (renderIterator_loop l lim i cache frs c))).
            length (fst f) \<le> B \<and> 0 \<le> snd f \<and> snd f \<le> gap l + 1) \<and>
         int (length (fst (snd (renderIterator_loop l lim i cache frs c))))
           \<le> int (length frs) + (slice_Len (items l) - i)"
  using assms(1,2,4,5)
proof (induction "nat (slice_Len (items l) - i)" arbitrary: i cache frs c)
  case 0
  then have ge: "\<not> i < slice_Len (items l)" by simp
  have e: "renderIterator_loop l lim i cache frs c = (cache, frs, slice_Len (items l))"
    using ge by (subst renderIterator_loop.simps) (simp add: Let_def)
  show ?case unfolding e using 0 by simp
next
  case (Suc n)
  then have lt: "i < slice_Len (items l)" by simp
  show ?case
  proof (cases "lim \<and> c \<ge> height l")
    case True
    have e: "renderIterator_loop l lim i cache frs c = (cache, frs, i)"
      using lt True by (subst renderIterator_loop.simps) (simp add: Let_def)
    show ?thesis unfolding e using Suc.prems lt by simp
  next
    case False
    define inx where "inx = (if direction l \<noteq> DirectionForward
                               then slice_Len (items l) - 1 - i else i)"
    have rng: "0 \<le> inx" "inx < int (length (items l))"
      using lt Suc.prems(1) by (auto simp: inx_def slice_Len_def)
    define it where "it = items l ! nat inx"
    have mem: "it \<in> set (items l)" using rng by (simp add: it_def)
    have g: "slice_Get (items l) inx = Some it" using rng by (simp add: slice_Get_def it_def)
    define rItem where "rItem = (case cache (item_id it) of Some c0 \<Rightarrow> c0
        | None \<Rightarrow> (renderItem it)\<lparr>ri_start := c, ri_end := c + ri_height (renderItem it) - 1\<rparr>)"
    define cache' where "cache' = (case cache (item_id it) of Some c0 \<Rightarrow> cache
        | None \<Rightarrow> cache(item_id it \<mapsto> rItem))"
    define g0 where "g0 = (if inx = slice_Len (items l) - 1 then 0 else wrap64 (gap l + 1))"
    have step: "renderIterator_loop l lim i cache frs c =
        renderIterator_loop l lim (i + 1) cache' (frs @ [(ri_view rItem, g0)])
          (ri_end rItem + 1 + gap l)"
      using lt g False
      by (subst renderIterator_loop.simps)
         (auto simp: Let_def inx_def [symmetric] rItem_def cache'_def g0_def
            split: option.splits)
    have n: "n = nat (slice_Len (items l) - (i + 1))" using Suc(2) by simp
    have i1: "0 \<le> i + 1" "i + 1 \<le> slice_Len (items l)" using Suc.prems(1) lt by simp_all
    have rv: "length (ri_view rItem) \<le> B"
      using Suc.prems(3) assms(3) mem
      by (auto simp: rItem_def renderItem_def split: option.splits)
    have c': "\<forall>it \<in> set (items l). \<forall>r. cache' (item_id it) = Some r \<longrightarrow> length (ri_view r) \<le> B"
      using Suc.prems(3) rv by (auto simp: cache'_def split: option.splits if_splits)
    have g0: "0 \<le> g0" "g0 \<le> gap l + 1"
      using assms(6) wrap64_id [OF assms(7)] by (auto simp: g0_def)
    have f': "\<forall>f \<in> set (frs @ [(ri_view rItem, g0)]).
        length (fst f) \<le> B \<and> 0 \<le> snd f \<and> snd f \<le> gap l + 1"
      using Suc.prems(4) rv g0 by auto
    note ih = Suc(1) [OF n i1 c' f', of "ri_end rItem + 1 + gap l"]
    show ?thesis unfolding step using ih by simp
  qed
qed

lemma views_fit_count:
  assumes "views_fit B l"
  shows "int (length (items l)) < 2 ^ 31"
    and "items l \<noteq> [] \<Longrightarrow> int64 (gap l + 1)"
proof -
  have b: "0 \<le> gap l" "int (length (items l)) * (int B + gap l + 1) < 2 ^ 31"
    using assms by (simp_all add: views_fit_def)
  have one: "1 \<le> int B + gap l + 1" using b(1) by simp
  have "int (length (items l)) * 1 \<le> int (length (items l)) * (int B + gap l + 1)"
    using one by (intro mult_left_mono) simp_all
  then show "int (length (items l)) < 2 ^ 31" using b(2) by simp
  show "int64 (gap l + 1)" if "items l \<noteq> []"
  proof -
    have "1 \<le> int (length (items l))" using that by (cases "items l") simp_all
    then have "1 * (int B + gap l + 1) \<le> int (length (items l)) * (int B + gap l + 1)"
      using one by (intro mult_right_mono) simp_all
    then have "gap l + 1 < 2 ^ 31" using b(2) by simp
    then show ?thesis using b(1) by (simp add: int64_def)
  qed
qed

lemma renderIterator_returns:
  assumes "views_fit B l"
  shows "renderIterator l 0 lim [] =
     Some (let (cache, fragments, finalIndex) =
                 renderIterator_loop l lim 0 (renderedItems l) [] (lipgloss_Height [] - 1);
               l' = l\<lparr>renderedItems := cache\<rparr>
           in if direction l = DirectionForward
              then (concat (map writeFragment fragments), finalIndex, l')
              else (concat (map writeFragment (rev fragments)), finalIndex, l'))"
proof -
  define res where "res = renderIterator_loop l lim 0 (renderedItems l) [] (lipgloss_Height [] - 1)"
  define frs where "frs = fst (snd res)"
  have b: "0 \<le> gap l" "int (length (items l)) * (int B + gap l + 1) < 2 ^ 31"
    using assms by (simp_all add: views_fit_def)
  have n31: "int (length (items l)) < 2 ^ 31" using views_fit_count(1) [OF assms] .
  have "int64 (slice_Len (items l) - 0)" using n31 by (simp add: int64_def slice_Len_def)
  then have w: "wrap64 (slice_Len (items l) - 0) = slice_Len (items l)"
    using wrap64_id by fastforce
  have ex: "\<not> expectedFragments l 0 lim < 0"
    using w by (auto simp: expectedFragments_def Let_def slice_Len_def)
  have est: "0 \<le> estimatedSize [] frs"
  proof (cases "items l = []")
    case True
    then have "res = (renderedItems l, [], slice_Len (items l))"
      unfolding res_def by (subst renderIterator_loop.simps) (simp add: Let_def slice_Len_def)
    then show ?thesis by (simp add: frs_def estimatedSize_def)
  next
    case False
    have g64: "int64 (gap l + 1)" using views_fit_count(2) [OF assms False] .
    have v: "\<forall>it \<in> set (items l). length (item_View it) \<le> B"
    proof
      fix it assume "it \<in> set (items l)"
      then have "length (item_render it (item_size it) True) \<le> B"
        "length (item_render it (item_size it) False) \<le> B"
        using assms by (auto simp: views_fit_def)
      then show "length (item_View it) \<le> B"
        by (cases "item_focused it") (simp_all add: item_View_def)
    qed
    have ca: "\<forall>it \<in> set (items l). \<forall>r. renderedItems l (item_id it) = Some r
        \<longrightarrow> length (ri_view r) \<le> B"
      using assms by (auto simp: views_fit_def split: option.splits)
    have fr: "\<forall>f \<in> set ([] :: (string \<times> int) list).
        length (fst f) \<le> B \<and> 0 \<le> snd f \<and> snd f \<le> gap l + 1" by simp
    have z: "(0::int) \<le> 0" "(0::int) \<le> slice_Len (items l)" by (simp_all add: slice_Len_def)
    from loop_fragments [OF z v ca fr b(1) g64, of lim "lipgloss_Height [] - 1"]
    have p: "\<forall>f \<in> set frs. length (fst f) \<le> B \<and> 0 \<le> snd f \<and> snd f \<le> gap l + 1"
      and len: "int (length frs) \<le> int (length (items l))"
      by (simp_all add: frs_def res_def slice_Len_def)
    have p': "\<forall>f \<in> set frs. int (length (fst f)) \<le> int B \<and> 0 \<le> snd f \<and> snd f \<le> gap l + 1"
      using p by auto
    have "int (length frs) * (int B + (gap l + 1)) \<le> int (length (items l)) * (int B + (gap l + 1))"
      using len b(1) by (intro mult_right_mono) simp_all
    then have bound: "0 + int (length frs) * (int B + (gap l + 1)) < 2 ^ 63"
      using b(2) by (simp add: add.assoc)
    show ?thesis
      unfolding estimatedSize_def
      using estimatedSize_fits [OF p' _ bound] by simp
  qed
  show ?thesis
    using ex est
    by (simp add: renderIterator_def res_def [symmetric] frs_def split_beta Let_def)
qed

lemma render_pass_returns:
  assumes "views_fit B l"
  shows "\<exists>fi l'. render_pass l 0 lim [] = Some (fi, l')"
  by (simp add: render_pass_def renderIterator_returns [OF assms] Let_def split_beta)

text \<open>
  Outside the bound a render pass can panic: with the gap -10 the size estimate of the
  first pass over the five items is \<open>5 * 6 + 4 * (-9) = -6\<close>.
\<close>

lemma render_negative_gap:
  "render (New five_items [WithGap (- 10), WithSize 80 3]) = None"
  by code_simp

text \<open>The size bound is kept by what \<open>render\<close> does before the pass.\<close>

lemma views_fit_swap_item:
  assumes "views_fit B l" and "slice_Get (items l) idx = Some it"
    and "item_id it' = item_id it" and "item_size it' = item_size it"
    and "item_render it' = item_render it"
  shows "views_fit B (l\<lparr>items := slice_Set (items l) idx it',
                        renderedItems := (renderedItems l)(k := None)\<rparr>)"
proof -
  have rng: "0 \<le> idx" "idx < int (length (items l))" and it: "it = items l ! nat idx"
    using assms(2) by (auto simp: slice_Get_def split: if_splits)
  have mem: "it \<in> set (items l)" using rng it by simp
  have set: "slice_Set (items l) idx it' = (items l)[nat idx := it']"
    using rng by (simp add: slice_Set_def)
  have sub: "x \<in> set ((items l)[nat idx := it']) \<Longrightarrow> x = it' \<or> x \<in> set (items l)" for x
    using set_update_subset_insert [of "items l" "nat idx" it'] by auto
  have old: "x \<in> set (items l) \<Longrightarrow>
      length (item_render x (item_size x) True) \<le> B \<and>
      length (item_render x (item_size x) False) \<le> B \<and>
      (case renderedItems l (item_id x) of None \<Rightarrow> True | Some r \<Rightarrow> length (ri_view r) \<le> B)" for x
    using assms(1) by (simp add: views_fit_def)
  have new: "x \<in> set ((items l)[nat idx := it']) \<Longrightarrow>
      length (item_render x (item_size x) True) \<le> B \<and>
      length (item_render x (item_size x) False) \<le> B \<and>
      (case ((renderedItems l)(k := None)) (item_id x) of
         None \<Rightarrow> True | Some r \<Rightarrow> length (ri_view r) \<le> B)" for x
    using sub [of x] old [of x] old [OF mem] assms(3,4,5)
    by (auto split: option.splits)
  show ?thesis
    using assms(1) new unfolding views_fit_def set by simp
qed

lemma views_fit_blurPrevious: "views_fit B l \<Longrightarrow> views_fit B (snd (blurPrevious l))"
  by (auto simp: blurPrevious_def item_Blur_def intro: views_fit_swap_item
      split: option.splits)

lemma views_fit_focusCurrent: "views_fit B l \<Longrightarrow> views_fit B (snd (focusCurrent l))"
  by (auto simp: focusCurrent_def item_Focus_def intro: views_fit_swap_item
      split: option.splits)

lemma views_fit_prev: "views_fit B (l\<lparr>prevSelectedItem := p\<rparr>) = views_fit B l"
  by (simp add: views_fit_def)

lemma views_fit_selected: "views_fit B (l\<lparr>selectedItem := p\<rparr>) = views_fit B l"
  by (simp add: views_fit_def)

lemma views_fit_focusSelectedItem:
  "views_fit B l \<Longrightarrow> views_fit B (snd (focusSelectedItem l))"
  using views_fit_focusCurrent [OF views_fit_blurPrevious, of B l]
  by (simp add: focusSelectedItem_def Let_def split_beta views_fit_prev)

lemma views_fit_blurSelectedItem:
  "views_fit B l \<Longrightarrow> views_fit B (snd (blurSelectedItem l))"
  by (auto simp: blurSelectedItem_def item_Blur_def intro: views_fit_swap_item
      split: option.splits)

lemma render_skip:
  "width l \<le> 0 \<or> height l \<le> 0 \<or> items l = [] \<Longrightarrow> render l = Some (None, l)"
  by (auto simp: render_def slice_Len_def)

lemma keeps_ids: "keeps l l' \<Longrightarrow> item_id ` set (items l') = item_id ` set (items l)"
proof -
  assume "keeps l l'"
  then have "map item_key (items l') = map item_key (items l)" by (simp add: keeps_def)
  then have "map fst (map item_key (items l')) = map fst (map item_key (items l))" by simp
  then have "map item_id (items l') = map item_id (items l)"
    by (simp add: item_key_def comp_def)
  then have "set (map item_id (items l')) = set (map item_id (items l))" by simp
  then show ?thesis by simp
qed

lemma render_result:
  assumes "0 < width l" and "0 < height l" and "items l \<noteq> []" and "views_fit B l"
  shows "\<exists>c l'. render l = Some (c, l') \<and> direction l' = direction l \<and>
           focused l' = focused l \<and> map item_key (items l') = map item_key (items l) \<and>
           (selectedItem l = [] \<longrightarrow>
              selectedItem l' = default_selected_id (direction l) (items l)) \<and>
           (selectedItem l \<noteq> [] \<and> selectedItem l \<in> item_id ` set (items l) \<longrightarrow>
              selectedItem l' = selectedItem l)"
proof -
  define d where "d = default_selected_id (direction l) (items l)"
  define l1 where "l1 = (if selectedItem l = [] then l\<lparr>selectedItem := d\<rparr> else l)"
  define p where "p = (if focused l1 then focusSelectedItem l1 else blurSelectedItem l1)"
  define fc where "fc = fst p"
  define l2 where "l2 = snd p"
  have s1: "setDefaultSelected l = Some l1"
    using assms(3) by (simp add: setDefaultSelected_result l1_def d_def)
  have k01: "direction l1 = direction l" "focused l1 = focused l" "items l1 = items l"
    "selectedItem l1 = (if selectedItem l = [] then d else selectedItem l)"
    by (simp_all add: l1_def)
  have v1: "views_fit B l1" using assms(4) by (simp add: l1_def views_fit_selected)
  have v2: "views_fit B l2"
    unfolding l2_def p_def
    using views_fit_focusSelectedItem [OF v1] views_fit_blurSelectedItem [OF v1] by simp
  have k12: "keeps l1 l2"
    unfolding l2_def p_def using keeps_focusSelectedItem keeps_blurSelectedItem by simp
  have ne2: "items l2 \<noteq> []" using keeps_nonempty [OF k12] assms(3) k01 by simp
  have sel2: "selectedItem l2 = (if selectedItem l = [] then d else selectedItem l)"
    using k12 k01 by (simp add: keeps_def)
  have key2: "map item_key (items l2) = map item_key (items l)"
    using k12 k01 by (simp add: keeps_def)
  have dir2: "direction l2 = direction l" "focused l2 = focused l"
    using k12 k01 by (simp_all add: keeps_def)
  obtain fiT lT where pT: "render_pass l2 0 True [] = Some (fiT, lT)"
    using render_pass_returns [OF v2] by blast
  obtain fiF l3 where pF: "render_pass l2 0 False [] = Some (fiF, l3)"
    using render_pass_returns [OF v2] by blast
  have unf: "render l =
      (if rendered l2 \<noteq> [] then
         Option.bind (if focused l3 then scrollToSelection l3 else Some l3)
           (\<lambda>l4. Some (fc, l4))
       else Some (tea_Batch [fc, Some (RenderCmd fiT)], lT))"
    using assms(1,2,3)
    by (simp add: render_def slice_Len_def s1 p_def [symmetric] fc_def l2_def [symmetric]
        pT pF Let_def split_beta)
  show ?thesis
  proof (cases "rendered l2 \<noteq> []")
    case False
    have k23: "keeps l2 lT" using render_pass_frame(1) [OF pT] .
    have "render l = Some (tea_Batch [fc, Some (RenderCmd fiT)], lT)"
      using False unf by simp
    moreover have "direction lT = direction l" "focused lT = focused l"
      "map item_key (items lT) = map item_key (items l)"
      "selectedItem lT = (if selectedItem l = [] then d else selectedItem l)"
      using k23 dir2 key2 sel2 by (simp_all add: keeps_def)
    ultimately show ?thesis by (simp add: d_def)
  next
    case True
    have k23: "keeps l2 l3" using render_pass_frame(1) [OF pF] .
    have ne3: "items l3 \<noteq> []" using keeps_nonempty [OF k23 ne2] .
    have p3: "direction l3 = direction l" "focused l3 = focused l"
      "map item_key (items l3) = map item_key (items l)"
      "selectedItem l3 = (if selectedItem l = [] then d else selectedItem l)"
      using k23 dir2 key2 sel2 by (simp_all add: keeps_def)
    have d3: "default_selected_id (direction l3) (items l3) = d"
      using default_selected_id_cong [OF p3(3)] p3(1) by (simp add: d_def)
    have cached: "selectedItem l \<noteq> [] \<and> selectedItem l \<in> item_id ` set (items l) \<Longrightarrow>
        renderedItems l3 (selectedItem l) \<noteq> None"
    proof -
      assume a: "selectedItem l \<noteq> [] \<and> selectedItem l \<in> item_id ` set (items l)"
      have "item_id ` set (items l2) = item_id ` set (items l)"
        using keeps_ids [OF k12] k01 by simp
      then have "selectedItem l \<in> item_id ` set (items l2)" using a by simp
      then obtain it where "it \<in> set (items l2)" "item_id it = selectedItem l"
        by (auto simp: image_iff)
      then show ?thesis using render_pass_cached [of it l2 "[]", OF _ pF] by simp
    qed
    show ?thesis
    proof (cases "focused l3")
      case False
      then have "render l = Some (fc, l3)" using True unf by simp
      then show ?thesis using p3 by (simp add: d_def)
    next
      case f: True
      obtain l4 where l4: "scrollToSelection l3 = Some l4" "direction l4 = direction l3"
        "focused l4 = focused l3" "map item_key (items l4) = map item_key (items l3)"
        "selectedItem l4 = (if renderedItems l3 (selectedItem l3) = None
              then default_selected_id (direction l3) (items l3) else selectedItem l3)"
        using scrollToSelection_result [OF ne3] by blast
      have "render l = Some (fc, l4)" using True unf f l4(1) by simp
      moreover have "selectedItem l = [] \<Longrightarrow> selectedItem l4 = d"
        using l4(5) p3(4) d3 by simp
      moreover have "selectedItem l \<noteq> [] \<and> selectedItem l \<in> item_id ` set (items l) \<Longrightarrow>
          selectedItem l4 = selectedItem l"
        using l4(5) p3(4) cached by simp
      ultimately show ?thesis using l4(2,3,4) p3 by (simp add: d_def)
    qed
  qed
qed

subsection \<open>Identifiers that are not in the index map\<close>

text \<open>
  C9. For an identifier that the index map does not hold, \<open>DeleteItem\<close> and
  \<open>UpdateItem\<close> return no command (\<open>tea.Sequence\<close> of nothing is nil) and the list
  itself, unchanged in every field; neither signals an error.
\<close>

theorem absent_id_noop:
  assumes "indexMap l i = None"
  shows "DeleteItem l i = Some (None, l) \<and> UpdateItem l i it = Some (None, l)"
  using assms
  by (simp add: DeleteItem_def UpdateItem_def tea_Sequence_def compactCmds_def
      List.map_filter_simps)

theorem absent_id_noop_witness:
  "indexMap (New five_items [WithSize 80 3]) ''9'' = None \<and>
   DeleteItem (New five_items [WithSize 80 3]) ''9''
     = Some (None, New five_items [WithSize 80 3]) \<and>
   UpdateItem (New five_items [WithSize 80 3]) ''9'' (text_item ''9'' True ''new'')
     = Some (None, New five_items [WithSize 80 3])"
proof -
  have h: "indexMap (New five_items [WithSize 80 3]) ''9'' = None" by code_simp
  show ?thesis
    using absent_id_noop [OF h, of "text_item ''9'' True ''new''"] h by simp
qed

subsection \<open>Jumping to either end\<close>

text \<open>
  C10, as amended. On a list within the size bound, \<open>GoToBottom\<close> always returns
  with the direction backward and \<open>GoToTop\<close> with the direction forward. The offset 0
  and the empty selected identifier are set before the re-render: they are still there
  at return when the render is skipped (non-positive size or no items); otherwise
  \<open>render\<close> selects the default item again, the last focusable item after
  \<open>GoToBottom\<close> and the first after \<open>GoToTop\<close>, and may scroll to it.
\<close>

theorem GoTo_end_result:
  assumes "views_fit B l"
  shows "(\<exists>c l'. GoToBottom l = Some (c, l') \<and> direction l' = DirectionBackward \<and>
      (if width l \<le> 0 \<or> height l \<le> 0 \<or> items l = []
       then c = None \<and> offset l' = 0 \<and> selectedItem l' = []
       else selectedItem l' = default_selected_id DirectionBackward (items l))) \<and>
   (\<exists>c l'. GoToTop l = Some (c, l') \<and> direction l' = DirectionForward \<and>
      (if width l \<le> 0 \<or> height l \<le> 0 \<or> items l = []
       then c = None \<and> offset l' = 0 \<and> selectedItem l' = []
       else selectedItem l' = default_selected_id DirectionForward (items l)))"
proof -
  have main: "\<exists>c l'. render (l\<lparr>offset := 0, selectedItem := [], direction := d\<rparr>) = Some (c, l') \<and>
      direction l' = d \<and>
      (if width l \<le> 0 \<or> height l \<le> 0 \<or> items l = []
       then c = None \<and> offset l' = 0 \<and> selectedItem l' = []
       else selectedItem l' = default_selected_id d (items l))" for d
  proof (cases "width l \<le> 0 \<or> height l \<le> 0 \<or> items l = []")
    case True
    then have "render (l\<lparr>offset := 0, selectedItem := [], direction := d\<rparr>)
        = Some (None, l\<lparr>offset := 0, selectedItem := [], direction := d\<rparr>)"
      by (intro render_skip) simp
    then show ?thesis using True by simp
  next
    case False
    then have a: "0 < width (l\<lparr>offset := 0, selectedItem := [], direction := d\<rparr>)"
      "0 < height (l\<lparr>offset := 0, selectedItem := [], direction := d\<rparr>)"
      "items (l\<lparr>offset := 0, selectedItem := [], direction := d\<rparr>) \<noteq> []"
      by simp_all
    have v: "views_fit B (l\<lparr>offset := 0, selectedItem := [], direction := d\<rparr>)"
      using assms by (simp add: views_fit_def)
    from render_result [OF a v] show ?thesis using False by auto
  qed
  show ?thesis unfolding GoToBottom_def GoToTop_def using main by blast
qed

theorem GoTo_end_result_witness:
  "views_fit 6 (the five_list) \<and>
   (\<exists>c l'. GoToBottom (the five_list) = Some (c, l') \<and> direction l' = DirectionBackward \<and>
      selectedItem l' = ''4'') \<and>
   (\<exists>c l'. GoToTop (the five_list) = Some (c, l') \<and> direction l' = DirectionForward \<and>
      selectedItem l' = ''0'')"
proof -
  have h: "views_fit 6 (the five_list)" by code_simp
  have e: "\<not> (width (the five_list) \<le> 0 \<or> height (the five_list) \<le> 0 \<or> items (the five_list) = [])"
    by code_simp
  have d: "default_selected_id DirectionBackward (items (the five_list)) = ''4''"
    "default_selected_id DirectionForward (items (the five_list)) = ''0''"
    by code_simp+
  show ?thesis using GoTo_end_result [OF h] h e d by simp
qed

text \<open>
  The claim as stated fails: after \<open>GoToBottom\<close> on the five rendered items the
  selected identifier is that of the last item, not empty; and on a list whose last item
  is a tall item that cannot take the focus, the offset is 3, not 0.
\<close>

theorem GoToBottom_counterexample:
  "Option.bind five_list (\<lambda>l. map_option (\<lambda>r. (offset (snd r), selectedItem (snd r)))
      (GoToBottom l)) = Some (0, ''4'') \<and>
   Option.bind mixed_list (\<lambda>l. map_option (\<lambda>r. (offset (snd r), selectedItem (snd r)))
      (GoToBottom l)) = Some (3, ''A'')"
  by code_simp

subsection \<open>Deleting the selected item\<close>

lemma views_fit_delete:
  assumes "views_fit B l"
  shows "views_fit B (l\<lparr>items := slice_Delete (items l) inx,
                        renderedItems := (renderedItems l)(i := None), indexMap := m\<rparr>)"
proof -
  have sub: "x \<in> set (slice_Delete (items l) inx) \<Longrightarrow> x \<in> set (items l)" for x
    by (auto simp: slice_Delete_def dest: in_set_takeD in_set_dropD split: if_splits)
  have len: "length (slice_Delete (items l) inx) \<le> length (items l)"
    by (auto simp: slice_Delete_def min_def)
  have le: "int (length (slice_Delete (items l) inx)) * (int B + gap l + 1)
      \<le> int (length (items l)) * (int B + gap l + 1)"
    using len assms by (intro mult_right_mono) (simp_all add: views_fit_def)
  have "int (length (items l)) * (int B + gap l + 1) < 2 ^ 31"
    using assms by (simp add: views_fit_def)
  then have n: "int (length (slice_Delete (items l) inx)) * (int B + gap l + 1) < 2 ^ 31"
    by (rule le_less_trans [OF le])
  have old: "x \<in> set (items l) \<Longrightarrow>
      length (item_render x (item_size x) True) \<le> B \<and>
      length (item_render x (item_size x) False) \<le> B \<and>
      (case renderedItems l (item_id x) of None \<Rightarrow> True | Some r \<Rightarrow> length (ri_view r) \<le> B)" for x
    using assms by (simp add: views_fit_def)
  have new: "x \<in> set (slice_Delete (items l) inx) \<Longrightarrow>
      length (item_render x (item_size x) True) \<le> B \<and>
      length (item_render x (item_size x) False) \<le> B \<and>
      (case ((renderedItems l)(i := None)) (item_id x) of
         None \<Rightarrow> True | Some r \<Rightarrow> length (ri_view r) \<le> B)" for x
    using old [OF sub [of x]] by (auto split: option.splits)
  show ?thesis
    using assms n new unfolding views_fit_def by simp
qed

text \<open>
  C7, as amended. On a list within the size bound, deleting the selected item (its
  index in range) makes the item just before it the selected one, when that item has a
  non-empty identifier. Otherwise, and when no item precedes it, the selection is cleared
  and the re-render selects the default item (the first focusable item in forward
  direction, the last in backward direction): the selected identifier stays empty only
  when the render is skipped (non-positive size or no item left) or no item is
  focusable.
\<close>

theorem DeleteItem_selected:
  assumes "indexMap l i = Some inx" and "0 \<le> inx" and "inx < int (length (items l))"
    and "selectedItem l = i" and "views_fit B l"
  shows "\<exists>c l'. DeleteItem l i = Some (c, l') \<and>
     selectedItem l' =
       (let xs = slice_Delete (items l) inx;
            p = (if inx > 0 then item_id (items l ! nat (inx - 1)) else [])
        in if p \<noteq> [] then p
           else if width l \<le> 0 \<or> height l \<le> 0 \<or> xs = [] then []
           else default_selected_id (direction l) xs)"
proof -
  define xs where "xs = slice_Delete (items l) inx"
  define p where "p = (if inx > 0 then item_id (items l ! nat (inx - 1)) else [])"
  define l2 where "l2 = l\<lparr>items := xs, renderedItems := (renderedItems l)(i := None),
      indexMap := reindex_loop xs inx ((indexMap l)(i := None))\<rparr>"
  define l3 where "l3 = l2\<lparr>selectedItem := p\<rparr>"
  have xs_eq: "xs = take (nat inx) (items l) @ drop (nat inx + 1) (items l)"
    using assms(2,3) by (simp add: xs_def slice_Delete_def)
  have get: "inx > 0 \<Longrightarrow> slice_Get xs (inx - 1) = Some (items l ! nat (inx - 1))"
  proof -
    assume pos: "inx > 0"
    have "nat (inx - 1) < nat inx" using pos by simp
    moreover have "nat inx \<le> length (items l)" using assms(3) by simp
    ultimately have "xs ! nat (inx - 1) = items l ! nat (inx - 1)"
      unfolding xs_eq by (simp add: nth_append)
    moreover have "inx - 1 < int (length xs)" using assms(2,3) pos unfolding xs_eq by simp
    ultimately show ?thesis using pos by (simp add: slice_Get_def)
  qed
  define fin :: "tlist \<Rightarrow> tlist" where "fin = (\<lambda>l4.
      if rendered l4 \<noteq> [] then
        (if renderedHeight l4 \<le> height l4 then l4\<lparr>offset := 0\<rparr>
         else
           (let maxOffset = renderedHeight l4 - height l4
            in if offset l4 > maxOffset then l4\<lparr>offset := maxOffset\<rparr> else l4))
      else l4)"
  have finsel: "selectedItem (fin l4) = selectedItem l4" for l4
    by (simp add: fin_def Let_def)
  have unf: "DeleteItem l i = Option.bind (render l3) (\<lambda>(c, l4). Some (c, fin l4))"
    using assms(1,4) get
    by (cases "inx > 0")
       (simp_all add: DeleteItem_def l3_def l2_def xs_def [symmetric] p_def fin_def)
  have f3: "width l3 = width l" "height l3 = height l" "items l3 = xs"
    "direction l3 = direction l" "selectedItem l3 = p"
    by (simp_all add: l3_def l2_def)
  have v3: "views_fit B l3"
    using views_fit_delete [OF assms(5), where inx = inx and i = i
        and m = "reindex_loop xs inx ((indexMap l)(i := None))"]
    by (simp add: l3_def l2_def xs_def views_fit_selected)
  show ?thesis
  proof (cases "width l \<le> 0 \<or> height l \<le> 0 \<or> xs = []")
    case True
    then have "render l3 = Some (None, l3)" using f3 by (intro render_skip) simp
    then have "DeleteItem l i = Some (None, fin l3)" using unf by simp
    then show ?thesis using True finsel f3
      by (simp add: xs_def [symmetric] p_def [symmetric] Let_def)
  next
    case False
    then have a: "0 < width l3" "0 < height l3" "items l3 \<noteq> []" using f3 by simp_all
    obtain c l4 where r: "render l3 = Some (c, l4)"
      "selectedItem l3 = [] \<longrightarrow> selectedItem l4 = default_selected_id (direction l3) (items l3)"
      "selectedItem l3 \<noteq> [] \<and> selectedItem l3 \<in> item_id ` set (items l3) \<longrightarrow>
         selectedItem l4 = selectedItem l3"
      using render_result [OF a v3] by blast
    have mem: "p \<noteq> [] \<Longrightarrow> p \<in> item_id ` set xs"
    proof -
      assume "p \<noteq> []"
      then have pos: "inx > 0" and pe: "p = item_id (items l ! nat (inx - 1))"
        by (auto simp: p_def split: if_splits)
      have g: "nat (inx - 1) < length xs" "xs ! nat (inx - 1) = items l ! nat (inx - 1)"
        using get [OF pos] pos by (auto simp: slice_Get_def split: if_splits)
      have "items l ! nat (inx - 1) \<in> set xs"
        using nth_mem [OF g(1)] g(2) by simp
      then show ?thesis using pe by blast
    qed
    have "DeleteItem l i = Some (c, fin l4)" using unf r(1) by simp
    moreover have "selectedItem l4 = (if p \<noteq> [] then p else default_selected_id (direction l) xs)"
      using r(2,3) f3 mem by auto
    ultimately show ?thesis using False finsel
      by (simp add: xs_def [symmetric] p_def [symmetric] Let_def)
  qed
qed

theorem DeleteItem_selected_witness:
  "indexMap (the five_list_third) ''2'' = Some 2 \<and> (0::int) \<le> 2 \<and>
   2 < int (length (items (the five_list_third))) \<and>
   selectedItem (the five_list_third) = ''2'' \<and> views_fit 6 (the five_list_third) \<and>
   (\<exists>c l'. DeleteItem (the five_list_third) ''2'' = Some (c, l') \<and> selectedItem l' = ''1'')"
proof -
  have h: "indexMap (the five_list_third) ''2'' = Some 2" "(0::int) \<le> 2"
    "2 < int (length (items (the five_list_third)))"
    "selectedItem (the five_list_third) = ''2''" "views_fit 6 (the five_list_third)"
    by code_simp+
  have v: "(let xs = slice_Delete (items (the five_list_third)) 2;
            p = (if (2::int) > 0 then item_id (items (the five_list_third) ! nat (2 - 1)) else [])
        in if p \<noteq> [] then p
           else if width (the five_list_third) \<le> 0 \<or> height (the five_list_third) \<le> 0
                   \<or> xs = [] then []
           else default_selected_id (direction (the five_list_third)) xs) = ''1''"
    by code_simp
  show ?thesis using DeleteItem_selected [OF h] h unfolding v by simp
qed

text \<open>
  The claim as stated fails: deleting the selected first item of the five rendered items
  leaves the next item selected, not an empty selection.
\<close>

theorem DeleteItem_first_counterexample:
  "Option.bind five_list (\<lambda>l. map_option (\<lambda>r. (selectedItem l, selectedItem (snd r)))
      (DeleteItem l ''0'')) = Some (''0'', ''1'')"
  by code_simp

subsection \<open>Scrolling up from the bottom\<close>

text \<open>
  C4, as amended. For five single-line items with viewport height 3 and forward
  direction, \<open>GoToBottom\<close> followed by \<open>MoveUp 2\<close> leaves the visible range showing
  items 0 through 2 (0-indexed) in original top-to-bottom order: lines 0 to 2 of the
  buffer, whether or not the follow-up actions are run and whether or not the items can
  take the focus.
\<close>

theorem bottom_then_up_two:
  "map_option visible scenario_bottom_up
     = Some ((0, 2), Inr (''item 0'' @ [NL] @ ''item 1'' @ [NL] @ ''item 2'')) \<and>
   map_option visible scenario_bottom_up_pending
     = Some ((0, 2), Inr (''item 0'' @ [NL] @ ''item 1'' @ [NL] @ ''item 2'')) \<and>
   map_option visible scenario_bottom_up_plain
     = Some ((0, 2), Inr (''item 0'' @ [NL] @ ''item 1'' @ [NL] @ ''item 2''))"
  by code_simp

text \<open>
  The claim as stated fails: the visible range is not lines 2 to 4, and the visible
  lines are not items 2 to 4. That is the view after \<open>GoToBottom\<close> alone; \<open>MoveUp 2\<close>
  then scrolls two lines up.
\<close>

theorem bottom_then_up_two_counterexample:
  "map_option viewPosition scenario_bottom_up \<noteq> Some (2, 4) \<and>
   map_option (snd \<circ> visible) scenario_bottom_up
     \<noteq> Some (Inr (''item 2'' @ [NL] @ ''item 3'' @ [NL] @ ''item 4''))"
  by code_simp

lemma bottom_shows_last_three:
  "map_option visible (Option.bind five_list (\<lambda>l0. run (GoToBottom l0)))
     = Some ((2, 4), Inr (''item 2'' @ [NL] @ ''item 3'' @ [NL] @ ''item 4''))"
  by code_simp

subsection \<open>Reversed selection endpoints\<close>

lemma Canon_swap: "Canon (q, p) = Canon (p, q)"
  by (cases p; cases q) (auto simp: Canon_def)

lemma hasSelection_swap: "hasSelection (with_selection l q p) = hasSelection (with_selection l p q)"
  by (auto simp: hasSelection_def with_selection_def)

lemma selectionView_swap:
  "selectionView e (with_selection l q p) v t = selectionView e (with_selection l p q) v t"
proof -
  have "Canon ((fst q, snd q), (fst p, snd p)) = Canon ((fst p, snd p), (fst q, snd q))"
    using Canon_swap [of q p] by simp
  then show ?thesis by (simp add: selectionView_def with_selection_def)
qed


lemma View_keeps_selection:
  "hasSelection l \<Longrightarrow> View e l = Inr (s, l') \<Longrightarrow> l' = l"
  by (auto simp: View_def Let_def split_beta split: if_splits sum.splits)

lemma getLines_cong:
  assumes "lineOffsets a = lineOffsets b" and "rendered a = rendered b"
  shows "getLines a s e = getLines b s e"
  unfolding getLines_def assms ..

lemma viewPosition_cong:
  assumes "direction a = direction b" and "offset a = offset b" and "height a = height b"
    and "renderedHeight a = renderedHeight b"
  shows "viewPosition a = viewPosition b"
  unfolding viewPosition_def assms ..

lemma View_swap:
  "map_sum id fst (View e (with_selection l q p)) = map_sum id fst (View e (with_selection l p q))"
proof -
  have vp: "viewPosition (with_selection l q p) = viewPosition (with_selection l p q)"
    by (rule viewPosition_cong) (simp_all add: with_selection_def)
  have gl: "getLines (with_selection l q p) a b = getLines (with_selection l p q) a b" for a b
    by (rule getLines_cong) (simp_all add: with_selection_def)
  have f: "height (with_selection l q p) = height (with_selection l p q)"
    "width (with_selection l q p) = width (with_selection l p q)"
    "cachedViewDirty (with_selection l q p) = cachedViewDirty (with_selection l p q)"
    "cachedViewOffset (with_selection l q p) = cachedViewOffset (with_selection l p q)"
    "offset (with_selection l q p) = offset (with_selection l p q)"
    "cachedView (with_selection l q p) = cachedView (with_selection l p q)"
    "resize (with_selection l q p) = resize (with_selection l p q)"
    by (simp_all add: with_selection_def)
  show ?thesis
    unfolding View_def vp gl f hasSelection_swap [of l q p] selectionView_swap [of e l q p]
    by (simp add: Let_def split_beta split: sum.splits)
qed

lemma GetSelectedText_swap:
  "map_sum id fst (GetSelectedText e (with_selection l q p) n)
     = map_sum id fst (GetSelectedText e (with_selection l p q) n)"
proof (cases "hasSelection (with_selection l p q)")
  case False
  then show ?thesis using hasSelection_swap [of l q p] by (simp add: GetSelectedText_def)
next
  case True
  then have hq: "hasSelection (with_selection l q p)" using hasSelection_swap [of l q p] by simp
  show ?thesis
  proof (cases "View e (with_selection l p q)")
    case (Inl err)
    then have "View e (with_selection l q p) = Inl err"
      using View_swap [of e l q p] by (cases "View e (with_selection l q p)") auto
    then show ?thesis using Inl True hq by (simp add: GetSelectedText_def)
  next
    case (Inr r)
    obtain v l' where r: "r = (v, l')" by (cases r)
    have l': "l' = with_selection l p q" using View_keeps_selection [OF True] Inr r by simp
    obtain v2 l2 where v2: "View e (with_selection l q p) = Inr (v2, l2)"
      using View_swap [of e l q p] Inr by (cases "View e (with_selection l q p)") auto
    have l2: "l2 = with_selection l q p" using View_keeps_selection [OF hq v2] .
    have vv: "v2 = v" using View_swap [of e l q p] Inr r v2 by simp
    show ?thesis using True hq Inr r v2 l' l2 vv selectionView_swap [of e l q p v True]
      by (simp add: GetSelectedText_def)
  qed
qed

text \<open>
  C5. For every pair of selection endpoints \<open>p\<close> and \<open>q\<close>, and so for a canonical
  pair (min before max) and its reversal, the selection result is the same with the
  endpoints in either order: the restyled view and the extracted text of
  \<open>selectionView\<close>, the string \<open>View\<close> returns and the text \<open>GetSelectedText\<close> returns.
\<close>

theorem selection_endpoints_swap:
  "selectionView e (with_selection l q p) v False = selectionView e (with_selection l p q) v False \<and>
   selectionView e (with_selection l q p) v True = selectionView e (with_selection l p q) v True \<and>
   map_sum id fst (View e (with_selection l q p)) = map_sum id fst (View e (with_selection l p q)) \<and>
   map_sum id fst (GetSelectedText e (with_selection l q p) n)
     = map_sum id fst (GetSelectedText e (with_selection l p q) n)"
  using selectionView_swap View_swap GetSelectedText_swap by simp

theorem selection_endpoints_swap_witness:
  "selectionView ascii_env (with_selection words_list (6, 0) (2, 0)) ''foo bar baz'' True = ''o ba'' \<and>
   selectionView ascii_env (with_selection words_list (2, 0) (6, 0)) ''foo bar baz'' True = ''o ba''"
proof -
  have h: "selectionView ascii_env (with_selection words_list (2, 0) (6, 0)) ''foo bar baz'' True = ''o ba''"
    by code_simp
  show ?thesis
    using selection_endpoints_swap [of ascii_env words_list "(6, 0)" "(2, 0)" "''foo bar baz''" 0] h
    by simp
qed

subsection \<open>Word selection on a space\<close>





subsection \<open>The bounds of the scroll offset\<close>

text \<open>
  The two scroll steps keep the scroll invariant
  \<open>0 \<le> offset \<le> max 0 (totalRenderedHeight - viewportHeight)\<close> when it held before
  (and the difference of the two heights is in the range of a 64-bit integer).
\<close>

lemma incrementOffset_bounds:
  assumes "offset_in_bounds l" and "int64 (renderedHeight l - height l)"
  shows "offset_in_bounds (incrementOffset l n)"
proof (cases "renderedHeight l \<le> height l")
  case True
  then show ?thesis using assms(1) by (simp add: incrementOffset_def)
next
  case False
  define m where "m = renderedHeight l - height l"
  have m: "wrap64 (renderedHeight l - height l) = m" "0 < m" "int64 m" "wrap64 m = m"
    using assms(2) False by (simp_all add: m_def wrap64_id)
  have o: "0 \<le> offset l" "offset l \<le> m"
    using assms(1) False by (simp_all add: offset_in_bounds_def m_def)
  have "int64 (m - offset l)" using o m(3) by (simp add: int64_def)
  then have d: "wrap64 (m - offset l) = m - offset l" by (rule wrap64_id)
  show ?thesis
  proof (cases "min n (m - offset l) \<le> 0")
    case True
    then show ?thesis
      using assms(1) False by (simp add: incrementOffset_def Let_def m(1,4) d m_def [symmetric])
  next
    case F: False
    have "int64 (offset l + min n (m - offset l))" using o m(3) F by (simp add: int64_def)
    then have w: "wrap64 (offset l + min n (m - offset l)) = offset l + min n (m - offset l)"
      by (rule wrap64_id)
    show ?thesis
      using False F o
      by (simp add: incrementOffset_def Let_def m(1,4) d w offset_in_bounds_def m_def [symmetric])
  qed
qed

lemma decrementOffset_bounds:
  assumes "offset_in_bounds l" and "int64 (offset l)"
  shows "offset_in_bounds (decrementOffset l n)"
proof (cases "min n (offset l) \<le> 0")
  case True
  then show ?thesis using assms(1) by (simp add: decrementOffset_def Let_def)
next
  case False
  have "int64 (offset l - min n (offset l))" using assms(2) False by (simp add: int64_def)
  then have w: "wrap64 (offset l - min n (offset l)) = offset l - min n (offset l)"
    by (rule wrap64_id)
  show ?thesis
    using False assms(1)
    by (auto simp: decrementOffset_def Let_def w offset_in_bounds_def)
qed

text \<open>
  C2. The code breaks the scroll invariant. On the five rendered items scrolled down by
  two lines, \<open>SetSize\<close> to the same width and the height 5 leaves the offset at 2
  while the bound is 0. On the list with a tall first item and the last item selected,
  shrinking the first item and then updating the second leaves the offset at 5 while
  the bound is 3. Each triple is the offset before the last mutator, the offset after it
  and the bound \<open>max 0 (totalRenderedHeight - viewportHeight)\<close> after it.
\<close>

theorem offset_bounds_broken:
  "Option.bind five_list (\<lambda>l0. Option.bind (run (MoveDown l0 2)) (\<lambda>l1.
      map_option (\<lambda>r. (offset l1, offset (snd r), max 0 (renderedHeight (snd r) - height (snd r))))
        (SetSize l1 80 5))) = Some (2, 2, 0) \<and>
   Option.bind tall_list (\<lambda>l0.
      Option.bind (run (UpdateItem l0 ''A'' (text_item ''A'' True ''a''))) (\<lambda>l1.
        map_option (\<lambda>r. (offset l1, offset (snd r), max 0 (renderedHeight (snd r) - height (snd r))))
          (UpdateItem l1 ''B'' (text_item ''B'' True ''bb'')))) = Some (3, 5, 3)"
  by code_simp

subsection \<open>The initial, height-limited render pass\<close>

lemma length_ordered_items [simp]: "length (ordered_items l) = length (items l)"
  by (simp add: ordered_items_def)


















end
